theory Spec2Isabelle
  imports Main "HOL-Library.AList"
begin

section \<open>The MCP server manager of \<^verbatim>\<open>Agents/mcp_server_manager.py\<close>\<close>

text \<open>
  The module holds one class, \<^verbatim>\<open>MCPServerManager\<close>, with three dictionaries
  (\<^verbatim>\<open>_servers\<close>, \<^verbatim>\<open>_tools\<close>, \<^verbatim>\<open>_config\<close>) and eight methods. The embedding keeps
  the method names. Every method is a function from the state before the call to an
  outcome and the state after it: a Python exception that leaves the method is the
  outcome \<open>Some e\<close>, and the state that comes with it holds every mutation made before
  the exception was raised.
\<close>

subsection \<open>Values, exceptions and console output\<close>

text \<open>
  What \<^verbatim>\<open>yaml.safe_load\<close> can return. Mapping keys are strings, as the annotations
  \<^verbatim>\<open>Dict[str, ...]\<close> and \<^verbatim>\<open>name: str\<close> of the class have them; a mapping is an
  association list in document order (a Python \<^verbatim>\<open>dict\<close> iterates in insertion order).
\<close>

datatype yaml =
    YNull
  | YBool bool
  | YInt int
  | YStr string
  | YList "yaml list"
  | YDict "(string \<times> yaml) list"

text \<open>
  Python exceptions, all of them subclasses of \<^verbatim>\<open>Exception\<close>: the three the module's
  own expressions raise, and \<open>Error\<close> for every other one that the file system, the YAML
  parser or the MCP client library raises. Signals outside \<^verbatim>\<open>Exception\<close> (task
  cancellation, interpreter exit), which \<^verbatim>\<open>except Exception\<close> lets through, are not
  part of the model.
\<close>

datatype exn =
    KeyError string
  | TypeError string
  | AttributeError string
  | Error string

text \<open>One constructor per \<^verbatim>\<open>print\<close> statement of the module, in source order.\<close>

datatype event =
    LoadingConfig string
  | ConfigLoaded
  | InitStart
  | InitServer string
  | InitCommand yaml string
  | InitOk string
  | InitFailed string exn
  | InitDone
  | Connecting string
  | FetchingTools string
  | FetchedTools string nat
  | AddError string exn
  | GetAllStart
  | GetAllDone nat
  | RefreshStart
  | Refreshing string
  | Refreshed string nat
  | RefreshError string exn
  | CloseStart
  | Closing string
  | CleanupError string exn
  | TerminateError string exn
  | Closed string
  | CloseError string exn
  | CloseDone

subsection \<open>Python expressions on loaded values\<close>

text \<open>\<^verbatim>\<open>not x\<close> is \<open>\<not> truthy x\<close>.\<close>

fun truthy :: "yaml \<Rightarrow> bool" where
  "truthy YNull = False"
| "truthy (YBool b) = b"
| "truthy (YInt i) = (i \<noteq> 0)"
| "truthy (YStr s) = (s \<noteq> [])"
| "truthy (YList xs) = (xs \<noteq> [])"
| "truthy (YDict kvs) = (kvs \<noteq> [])"

text \<open>\<^verbatim>\<open>x.get(k, d)\<close>: only a mapping has the method.\<close>

fun py_get :: "yaml \<Rightarrow> string \<Rightarrow> yaml \<Rightarrow> exn + yaml" where
  "py_get (YDict kvs) k d = Inr (case map_of kvs k of None \<Rightarrow> d | Some v \<Rightarrow> v)"
| "py_get _ k d = Inl (AttributeError ''get'')"

text \<open>\<^verbatim>\<open>x[k]\<close> with a string key \<open>k\<close>.\<close>

fun py_index :: "yaml \<Rightarrow> string \<Rightarrow> exn + yaml" where
  "py_index (YDict kvs) k = (case map_of kvs k of None \<Rightarrow> Inl (KeyError k) | Some v \<Rightarrow> Inr v)"
| "py_index _ k = Inl (TypeError ''subscript'')"

text \<open>\<^verbatim>\<open>x.items()\<close>.\<close>

fun py_items :: "yaml \<Rightarrow> exn + (string \<times> yaml) list" where
  "py_items (YDict kvs) = Inr kvs"
| "py_items _ = Inl (AttributeError ''items'')"

fun is_YStr :: "yaml \<Rightarrow> bool" where
  "is_YStr (YStr s) = True"
| "is_YStr _ = False"

fun the_YStr :: "yaml \<Rightarrow> string" where
  "the_YStr (YStr s) = s"
| "the_YStr _ = []"

fun join_strs :: "string list \<Rightarrow> string" where
  "join_strs [] = []"
| "join_strs [x] = x"
| "join_strs (x # y # zs) = x @ '' '' @ join_strs (y # zs)"

text \<open>
  \<^verbatim>\<open>' '.join(x)\<close>: \<open>x\<close> must be iterable and yield strings only. A list yields its items,
  a string its characters, a mapping its keys.
\<close>

fun py_join :: "yaml \<Rightarrow> exn + string" where
  "py_join (YList xs) =
     (if list_all is_YStr xs then Inr (join_strs (map the_YStr xs)) else Inl (TypeError ''join''))"
| "py_join (YStr s) = Inr (join_strs (map (\<lambda>c. [c]) s))"
| "py_join (YDict kvs) = Inr (join_strs (map fst kvs))"
| "py_join _ = Inl (TypeError ''join'')"

definition and_then :: "exn + 'a \<Rightarrow> ('a \<Rightarrow> exn + 'b) \<Rightarrow> exn + 'b" where
  "and_then x f = (case x of Inl e \<Rightarrow> Inl e | Inr v \<Rightarrow> f v)"

subsection \<open>The collaborators outside the module\<close>

text \<open>
  The module imports \<^verbatim>\<open>MCPServerStdio\<close> and \<^verbatim>\<open>MCPUtil\<close> from the client library, reads a
  file and parses it with \<^verbatim>\<open>yaml.safe_load\<close>. None of that code is in the repository,
  so it is a parameter of every definition below: \<open>'h\<close> is the type of server objects,
  \<open>'t\<close> of tool descriptors, \<open>'f\<close> of function tools, \<open>'p\<close> of process objects and \<open>'w\<close>
  of the state of everything outside the manager (files, child processes, connections).
  A call that can raise returns \<open>Some e\<close> or \<open>Inl e\<close> when it does.

  \<^item> \<open>module_dir\<close> is \<^verbatim>\<open>Path(__file__).parent\<close>;
  \<^item> \<open>safe_load p w\<close> is \<^verbatim>\<open>open(p)\<close> followed by \<^verbatim>\<open>yaml.safe_load\<close>;
  \<^item> \<open>construct name params flag\<close> is \<^verbatim>\<open>MCPServerStdio(name=, params=, cache_tools_list=)\<close>;
  \<^item> \<open>process h w\<close> is the value of \<^verbatim>\<open>hasattr(h, 'process') and h.process\<close>: \<open>Inr None\<close>
    when it is falsy, \<open>Inr (Some p)\<close> when it is the process \<open>p\<close>, \<open>Inl e\<close> when reading
    the attribute raises;
  \<^item> \<open>poll p w\<close> returns whether \<^verbatim>\<open>p.poll() is None\<close>, that is, whether \<open>p\<close> still runs;
  \<^item> \<open>sleep\<close> is what \<^verbatim>\<open>await asyncio.sleep(1)\<close> lets happen outside.
\<close>

record ('h, 't, 'f, 'p, 'w) env =
  module_dir :: string
  safe_load :: "string \<Rightarrow> 'w \<Rightarrow> exn + yaml"
  construct :: "string \<Rightarrow> yaml \<Rightarrow> yaml \<Rightarrow> exn + 'h"
  connect :: "'h \<Rightarrow> 'w \<Rightarrow> exn option \<times> 'w"
  list_tools :: "'h \<Rightarrow> 'w \<Rightarrow> (exn + 't list) \<times> 'w"
  cleanup :: "'h \<Rightarrow> 'w \<Rightarrow> exn option \<times> 'w"
  process :: "'h \<Rightarrow> 'w \<Rightarrow> exn + 'p option"
  terminate :: "'p \<Rightarrow> 'w \<Rightarrow> exn option \<times> 'w"
  sleep :: "'w \<Rightarrow> 'w"
  poll :: "'p \<Rightarrow> 'w \<Rightarrow> (exn + bool) \<times> 'w"
  kill :: "'p \<Rightarrow> 'w \<Rightarrow> exn option \<times> 'w"
  get_all_function_tools :: "'h list \<Rightarrow> 'w \<Rightarrow> (exn + 'f list) \<times> 'w"

subsection \<open>The manager\<close>

text \<open>
  The three attributes of \<^verbatim>\<open>MCPServerManager\<close> (without their leading underscore), the
  outside world and the console. A dictionary is an association list with
  \<^const>\<open>AList.update\<close> for \<^verbatim>\<open>d[k] = v\<close> (in place when \<open>k\<close> is there, at the end when
  not), \<^const>\<open>AList.delete\<close> for \<^verbatim>\<open>del d[k]\<close> and \<^const>\<open>map_of\<close> for \<^verbatim>\<open>d.get(k)\<close>.
\<close>

record ('h, 't, 'w) manager =
  servers :: "(string \<times> 'h) list"
  tools :: "(string \<times> 't list) list"
  config :: yaml
  world :: 'w
  out :: "event list"

text \<open>\<^verbatim>\<open>__init__\<close>, in a world \<open>w\<close> and with nothing printed yet.\<close>

definition init :: "'w \<Rightarrow> ('h, 't, 'w) manager" where
  "init w = \<lparr>servers = [], tools = [], config = YDict [], world = w, out = []\<rparr>"

definition emit :: "event \<Rightarrow> ('h, 't, 'w) manager \<Rightarrow> ('h, 't, 'w) manager" where
  "emit ev s = s\<lparr>out := out s @ [ev]\<rparr>"

text \<open>\<^verbatim>\<open>name in self._servers\<close>.\<close>

definition has_server :: "string \<Rightarrow> ('h, 't, 'w) manager \<Rightarrow> bool" where
  "has_server name s = (map_of (servers s) name \<noteq> None)"

subsubsection \<open>\<^verbatim>\<open>load_config\<close> (lines 13 to 21)\<close>

definition default_path :: "('h, 't, 'f, 'p, 'w) env \<Rightarrow> string" where
  "default_path env = module_dir env @ ''/mcp_server_config.yaml''"

definition load_config ::
  "('h, 't, 'f, 'p, 'w) env \<Rightarrow> string option \<Rightarrow> ('h, 't, 'w) manager
    \<Rightarrow> exn option \<times> ('h, 't, 'w) manager" where
  "load_config env config_path s =
     (let p = (case config_path of None \<Rightarrow> default_path env | Some q \<Rightarrow> q);
          s1 = emit (LoadingConfig p) s
      in case safe_load env p (world s1) of
           Inl e \<Rightarrow> (Some e, s1)
         | Inr y \<Rightarrow> (None, emit ConfigLoaded (s1\<lparr>config := y\<rparr>)))"

subsubsection \<open>\<^verbatim>\<open>add_server\<close> (lines 47 to 62)\<close>

text \<open>The \<^verbatim>\<open>except\<close> branch: print, delete the name when it is there, raise again.\<close>

definition add_server_failed ::
  "string \<Rightarrow> exn \<Rightarrow> ('h, 't, 'w) manager \<Rightarrow> exn option \<times> ('h, 't, 'w) manager" where
  "add_server_failed name e s =
     (let s1 = emit (AddError name e) s
      in (Some e,
          if has_server name s1 then s1\<lparr>servers := AList.delete name (servers s1)\<rparr> else s1))"

definition add_server ::
  "('h, 't, 'f, 'p, 'w) env \<Rightarrow> string \<Rightarrow> 'h \<Rightarrow> ('h, 't, 'w) manager
    \<Rightarrow> exn option \<times> ('h, 't, 'w) manager" where
  "add_server env name server s =
     (let s1 = emit (Connecting name) s
      in case connect env server (world s1) of
           (Some e, w1) \<Rightarrow> add_server_failed name e (s1\<lparr>world := w1\<rparr>)
         | (None, w1) \<Rightarrow>
             (let s2 = s1\<lparr>world := w1, servers := AList.update name server (servers s1)\<rparr>;
                  s3 = emit (FetchingTools name) s2
              in case list_tools env server (world s3) of
                   (Inl e, w2) \<Rightarrow> add_server_failed name e (s3\<lparr>world := w2\<rparr>)
                 | (Inr ts, w2) \<Rightarrow>
                     (None, emit (FetchedTools name (length ts))
                              (s3\<lparr>world := w2, tools := AList.update name ts (tools s3)\<rparr>))))"

subsubsection \<open>\<^verbatim>\<open>initialize_servers\<close> (lines 23 to 45)\<close>

text \<open>
  Line 31, the two expressions of the f-string in their order of evaluation:
  \<^verbatim>\<open>server_config['params']['command']\<close> and
  \<^verbatim>\<open>' '.join(server_config['params']['args'])\<close>.
\<close>

definition command_line :: "yaml \<Rightarrow> exn + yaml \<times> string" where
  "command_line server_config =
     and_then (py_index server_config ''params'') (\<lambda>ps.
     and_then (py_index ps ''command'') (\<lambda>cmd.
     and_then (py_index server_config ''params'') (\<lambda>ps'.
     and_then (py_index ps' ''args'') (\<lambda>args.
     and_then (py_join args) (\<lambda>joined. Inr (cmd, joined))))))"

text \<open>Lines 33 to 37, the construction of the server object.\<close>

definition make_server :: "('h, 't, 'f, 'p, 'w) env \<Rightarrow> string \<Rightarrow> yaml \<Rightarrow> exn + 'h" where
  "make_server env server_name server_config =
     and_then (py_get server_config ''params'' (YDict [])) (\<lambda>ps.
     and_then (py_get server_config ''cache_tools_list'' (YBool True)) (\<lambda>flag.
     construct env server_name ps flag))"

text \<open>The body of the \<^verbatim>\<open>for\<close> loop, lines 30 to 43.\<close>

definition init_entry ::
  "('h, 't, 'f, 'p, 'w) env \<Rightarrow> string \<Rightarrow> yaml \<Rightarrow> ('h, 't, 'w) manager
    \<Rightarrow> exn option \<times> ('h, 't, 'w) manager" where
  "init_entry env server_name server_config s =
     (let s1 = emit (InitServer server_name) s
      in case command_line server_config of
           Inl e \<Rightarrow> (Some e, s1)
         | Inr (cmd, joined) \<Rightarrow>
             (let s2 = emit (InitCommand cmd joined) s1
              in case make_server env server_name server_config of
                   Inl e \<Rightarrow> (Some e, s2)
                 | Inr server \<Rightarrow>
                     (case add_server env server_name server s2 of
                        (None, s3) \<Rightarrow> (None, emit (InitOk server_name) s3)
                      | (Some e, s3) \<Rightarrow> (None, emit (InitFailed server_name e) s3))))"

fun init_loop ::
  "('h, 't, 'f, 'p, 'w) env \<Rightarrow> (string \<times> yaml) list \<Rightarrow> ('h, 't, 'w) manager
    \<Rightarrow> exn option \<times> ('h, 't, 'w) manager" where
  "init_loop env [] s = (None, s)"
| "init_loop env ((server_name, server_config) # rest) s =
     (case init_entry env server_name server_config s of
        (Some e, s') \<Rightarrow> (Some e, s')
      | (None, s') \<Rightarrow> init_loop env rest s')"

definition initialize_servers ::
  "('h, 't, 'f, 'p, 'w) env \<Rightarrow> ('h, 't, 'w) manager \<Rightarrow> exn option \<times> ('h, 't, 'w) manager" where
  "initialize_servers env s =
     (case (if \<not> truthy (config s) then load_config env None s else (None, s)) of
        (Some e, s1) \<Rightarrow> (Some e, s1)
      | (None, s1) \<Rightarrow>
          (let s2 = emit InitStart s1
           in case and_then (py_get (config s2) ''servers'' (YDict [])) py_items of
                Inl e \<Rightarrow> (Some e, s2)
              | Inr entries \<Rightarrow>
                  (case init_loop env entries s2 of
                     (Some e, s3) \<Rightarrow> (Some e, s3)
                   | (None, s3) \<Rightarrow> (None, emit InitDone s3))))"

subsubsection \<open>The lookups (lines 64 to 79)\<close>

definition get_server :: "string \<Rightarrow> ('h, 't, 'w) manager \<Rightarrow> 'h option" where
  "get_server name s = map_of (servers s) name"

definition get_all_tools ::
  "('h, 't, 'f, 'p, 'w) env \<Rightarrow> ('h, 't, 'w) manager \<Rightarrow> (exn + 'f list) \<times> ('h, 't, 'w) manager" where
  "get_all_tools env s =
     (let hs = map snd (servers s);
          s1 = emit GetAllStart s
      in case get_all_function_tools env hs (world s1) of
           (Inl e, w) \<Rightarrow> (Inl e, s1\<lparr>world := w\<rparr>)
         | (Inr tools_list, w) \<Rightarrow>
             (Inr tools_list, emit (GetAllDone (length tools_list)) (s1\<lparr>world := w\<rparr>)))"

text \<open>
  \<^verbatim>\<open>get_server_tools\<close> is a coroutine; it returns the state too, so that what it does to
  the state can be stated.
\<close>

definition get_server_tools ::
  "string \<Rightarrow> ('h, 't, 'w) manager \<Rightarrow> 't list option \<times> ('h, 't, 'w) manager" where
  "get_server_tools server_name s = (map_of (tools s) server_name, s)"

subsubsection \<open>\<^verbatim>\<open>refresh_tools\<close> (lines 81 to 91)\<close>

text \<open>The body of the loop, lines 85 to 91: one fetch, inside its own \<^verbatim>\<open>try\<close>.\<close>

definition refresh_server ::
  "('h, 't, 'f, 'p, 'w) env \<Rightarrow> string \<Rightarrow> 'h \<Rightarrow> ('h, 't, 'w) manager \<Rightarrow> ('h, 't, 'w) manager" where
  "refresh_server env name server s =
     (let s1 = emit (Refreshing name) s
      in case list_tools env server (world s1) of
           (Inr ts, w) \<Rightarrow>
             emit (Refreshed name (length ts))
               (s1\<lparr>world := w, tools := AList.update name ts (tools s1)\<rparr>)
         | (Inl e, w) \<Rightarrow> emit (RefreshError name e) (s1\<lparr>world := w\<rparr>))"

fun refresh_loop ::
  "('h, 't, 'f, 'p, 'w) env \<Rightarrow> (string \<times> 'h) list \<Rightarrow> ('h, 't, 'w) manager
    \<Rightarrow> ('h, 't, 'w) manager" where
  "refresh_loop env [] s = s"
| "refresh_loop env ((name, server) # rest) s =
     refresh_loop env rest (refresh_server env name server s)"

definition refresh_tools ::
  "('h, 't, 'f, 'p, 'w) env \<Rightarrow> ('h, 't, 'w) manager \<Rightarrow> exn option \<times> ('h, 't, 'w) manager" where
  "refresh_tools env s =
     (let s1 = emit RefreshStart s in (None, refresh_loop env (servers s1) s1))"

subsubsection \<open>\<^verbatim>\<open>close\<close> (lines 93 to 119)\<close>

text \<open>
  Lines 105 to 111, the forced termination of the process \<open>p\<close>; every exception in it is
  caught and printed.
\<close>

definition force_terminate ::
  "('h, 't, 'f, 'p, 'w) env \<Rightarrow> string \<Rightarrow> 'p \<Rightarrow> ('h, 't, 'w) manager \<Rightarrow> ('h, 't, 'w) manager" where
  "force_terminate env name p s =
     (case terminate env p (world s) of
        (Some e, w1) \<Rightarrow> emit (TerminateError name e) (s\<lparr>world := w1\<rparr>)
      | (None, w1) \<Rightarrow>
          (case poll env p (sleep env w1) of
             (Inl e, w2) \<Rightarrow> emit (TerminateError name e) (s\<lparr>world := w2\<rparr>)
           | (Inr running, w2) \<Rightarrow>
               (if running then
                  (case kill env p w2 of
                     (Some e, w3) \<Rightarrow> emit (TerminateError name e) (s\<lparr>world := w3\<rparr>)
                   | (None, w3) \<Rightarrow> s\<lparr>world := w3\<rparr>)
                else s\<lparr>world := w2\<rparr>)))"

text \<open>Lines 99 to 111, the inner \<^verbatim>\<open>try\<close>; its outcome is an exception that leaves it.\<close>

definition cleanup_server ::
  "('h, 't, 'f, 'p, 'w) env \<Rightarrow> string \<Rightarrow> 'h \<Rightarrow> ('h, 't, 'w) manager
    \<Rightarrow> exn option \<times> ('h, 't, 'w) manager" where
  "cleanup_server env name server s =
     (case cleanup env server (world s) of
        (None, w) \<Rightarrow> (None, s\<lparr>world := w\<rparr>)
      | (Some e, w) \<Rightarrow>
          (let s1 = emit (CleanupError name e) (s\<lparr>world := w\<rparr>)
           in case process env server (world s1) of
                Inl e' \<Rightarrow> (Some e', s1)
              | Inr None \<Rightarrow> (None, s1)
              | Inr (Some p) \<Rightarrow> (None, force_terminate env name p s1)))"

text \<open>The body of the loop, lines 97 to 117, with its \<^verbatim>\<open>except\<close> and \<^verbatim>\<open>finally\<close>.\<close>

definition close_server ::
  "('h, 't, 'f, 'p, 'w) env \<Rightarrow> string \<Rightarrow> 'h \<Rightarrow> ('h, 't, 'w) manager \<Rightarrow> ('h, 't, 'w) manager" where
  "close_server env name server s =
     (let s1 = emit (Closing name) s;
          s3 = (case cleanup_server env name server s1 of
                  (None, s2) \<Rightarrow> emit (Closed name) s2
                | (Some e, s2) \<Rightarrow> emit (CloseError name e) s2)
      in if has_server name s3 then s3\<lparr>servers := AList.delete name (servers s3)\<rparr> else s3)"

fun close_loop ::
  "('h, 't, 'f, 'p, 'w) env \<Rightarrow> (string \<times> 'h) list \<Rightarrow> ('h, 't, 'w) manager
    \<Rightarrow> ('h, 't, 'w) manager" where
  "close_loop env [] s = s"
| "close_loop env ((name, server) # rest) s = close_loop env rest (close_server env name server s)"

definition close ::
  "('h, 't, 'f, 'p, 'w) env \<Rightarrow> ('h, 't, 'w) manager \<Rightarrow> exn option \<times> ('h, 't, 'w) manager" where
  "close env s =
     (let s1 = emit CloseStart s;
          s2 = close_loop env (servers s1) s1
      in (None, emit CloseDone (s2\<lparr>tools := []\<rparr>)))"

subsection \<open>Sequences of calls\<close>

text \<open>
  The public methods as one datatype, and a caller that makes any sequence of calls on
  one manager, going on after a call that raised (the manager is a module-level
  singleton, so the state survives the exception).
\<close>

datatype 'h call =
    LoadConfig "string option"
  | InitializeServers
  | AddServer string 'h
  | GetServer string
  | GetAllTools
  | GetServerTools string
  | RefreshTools
  | Close

fun exec ::
  "('h, 't, 'f, 'p, 'w) env \<Rightarrow> 'h call \<Rightarrow> ('h, 't, 'w) manager \<Rightarrow> ('h, 't, 'w) manager" where
  "exec env (LoadConfig p) s = snd (load_config env p s)"
| "exec env InitializeServers s = snd (initialize_servers env s)"
| "exec env (AddServer name h) s = snd (add_server env name h s)"
| "exec env (GetServer name) s = s"
| "exec env GetAllTools s = snd (get_all_tools env s)"
| "exec env (GetServerTools name) s = snd (get_server_tools name s)"
| "exec env RefreshTools s = snd (refresh_tools env s)"
| "exec env Close s = snd (close env s)"

fun run ::
  "('h, 't, 'f, 'p, 'w) env \<Rightarrow> 'h call list \<Rightarrow> ('h, 't, 'w) manager \<Rightarrow> ('h, 't, 'w) manager" where
  "run env [] s = s"
| "run env (c # cs) s = run env cs (exec env c s)"

subsection \<open>Conditions on entries and on states\<close>

text \<open>
  An entry of the configuration is usable when the two steps that precede the \<^verbatim>\<open>try\<close> of
  \<^verbatim>\<open>initialize_servers\<close> go through for it: the command line of line 31 can be printed
  and the constructor of lines 33 to 37 returns a server object.
\<close>

definition usable_entry :: "('h, 't, 'f, 'p, 'w) env \<Rightarrow> string \<Rightarrow> yaml \<Rightarrow> bool" where
  "usable_entry env server_name server_config =
     (\<not> isl (command_line server_config) \<and> \<not> isl (make_server env server_name server_config))"

text \<open>
  The bookkeeping of the manager is consistent when every name with a handle has cached
  tools, and every name with cached tools was announced by \<^verbatim>\<open>add_server\<close> on the console.
\<close>

definition consistent :: "('h, 't, 'w) manager \<Rightarrow> bool" where
  "consistent s =
     (fst ` set (servers s) \<subseteq> fst ` set (tools s)
      \<and> fst ` set (tools s) \<subseteq> {n. Connecting n \<in> set (out s)})"

subsection \<open>An example environment\<close>

text \<open>
  A small outside world to run the manager in. A server object is its command and whether
  its caching flag is set. The constructor looks up \<^verbatim>\<open>params["command"]\<close>: without the key
  it raises \<^verbatim>\<open>KeyError\<close>; a command that is not a string, or arguments that are not a list
  of strings, are refused by validation; the flag is taken as it comes. The commands \<open>files\<close> and \<open>clock\<close> connect and list tools,
  \<open>mute\<close> connects but fails to list, \<open>flaky\<close> lists once and fails afterwards, every other
  command fails to connect. The clean-up of \<open>clock\<close> fails, and so does killing its
  process. The world is the journal of what happened outside.
\<close>

type_synonym demo_server = "string \<times> bool"

fun demo_args_ok :: "yaml option \<Rightarrow> bool" where
  "demo_args_ok None = True"
| "demo_args_ok (Some (YList xs)) = list_all is_YStr xs"
| "demo_args_ok (Some _) = False"

fun demo_construct :: "string \<Rightarrow> yaml \<Rightarrow> yaml \<Rightarrow> exn + demo_server" where
  "demo_construct name (YDict kvs) flag =
     (case map_of kvs ''command'' of
        None \<Rightarrow> Inl (KeyError ''command'')
      | Some (YStr c) \<Rightarrow>
          (if demo_args_ok (map_of kvs ''args'') then Inr (c, truthy flag)
           else Inl (Error ''ValidationError''))
      | Some _ \<Rightarrow> Inl (Error ''ValidationError''))"
| "demo_construct name _ flag = Inl (TypeError ''subscript'')"

definition demo_connect :: "demo_server \<Rightarrow> string list \<Rightarrow> exn option \<times> string list" where
  "demo_connect h w =
     (if fst h \<in> {''files'', ''clock'', ''mute'', ''flaky''} then (None, w @ [fst h])
      else (Some (Error ''spawn''), w))"

definition demo_list_tools ::
  "demo_server \<Rightarrow> string list \<Rightarrow> (exn + string list) \<times> string list" where
  "demo_list_tools h w =
     (if fst h = ''files'' then (Inr [''read'', ''write'', ''list''], w)
      else if fst h = ''clock'' then (Inr [''now''], w)
      else if fst h = ''flaky'' \<and> ''listed'' \<notin> set w then (Inr [''once''], w @ [''listed''])
      else (Inl (Error ''list_tools''), w))"

definition demo_cleanup :: "demo_server \<Rightarrow> string list \<Rightarrow> exn option \<times> string list" where
  "demo_cleanup h w =
     (if fst h = ''clock'' then (Some (Error ''cleanup''), w) else (None, removeAll (fst h) w))"

text \<open>
  The files of the example: the default configuration with the entries \<open>files\<close>, \<open>ghost\<close>
  and \<open>clock\<close>; \<^verbatim>\<open>healthy.yaml\<close> with \<open>files\<close> and \<open>clock\<close>; \<^verbatim>\<open>flaky.yaml\<close> with \<open>flaky\<close> alone;
  \<^verbatim>\<open>broken.yaml\<close>, whose first entry has no \<^verbatim>\<open>params\<close>; \<^verbatim>\<open>empty.yaml\<close>, which holds the
  empty mapping \<^verbatim>\<open>{}\<close>; and \<^verbatim>\<open>blank.yaml\<close>, a file without content, which \<^verbatim>\<open>yaml.safe_load\<close>
  reads as \<^verbatim>\<open>None\<close>.
\<close>

definition files_entry :: yaml where
  "files_entry = YDict [(''params'', YDict [(''command'', YStr ''files''),
                                            (''args'', YList [YStr ''--root'', YStr ''/srv''])])]"

definition clock_entry :: yaml where
  "clock_entry = YDict [(''params'', YDict [(''command'', YStr ''clock''), (''args'', YList [])])]"

definition demo_config :: yaml where
  "demo_config = YDict [(''servers'', YDict
     [(''files'', YDict [(''params'', YDict [(''command'', YStr ''files''),
                                             (''args'', YList [YStr ''--root'', YStr ''/srv''])])]),
      (''ghost'', YDict [(''params'', YDict [(''command'', YStr ''ghost''), (''args'', YList [])]),
                         (''cache_tools_list'', YBool False)]),
      (''clock'', YDict [(''params'', YDict [(''command'', YStr ''clock''), (''args'', YList [])])])])]"

definition healthy_config :: yaml where
  "healthy_config = YDict [(''servers'', YDict [(''files'', files_entry), (''clock'', clock_entry)])]"

definition flaky_config :: yaml where
  "flaky_config = YDict [(''servers'', YDict
     [(''flaky'', YDict [(''params'', YDict [(''command'', YStr ''flaky''), (''args'', YList [])])])])]"

definition broken_config :: yaml where
  "broken_config = YDict [(''servers'', YDict [(''bad'', YDict []), (''files'', files_entry)])]"

definition demo_env :: "(demo_server, string, string, nat, string list) env" where
  "demo_env =
     \<lparr>module_dir = ''/app'',
      safe_load = (\<lambda>p w. if p = ''/app/mcp_server_config.yaml'' then Inr demo_config
                          else if p = ''healthy.yaml'' then Inr healthy_config
                          else if p = ''flaky.yaml'' then Inr flaky_config
                          else if p = ''broken.yaml'' then Inr broken_config
                          else if p = ''empty.yaml'' then Inr (YDict [])
                          else if p = ''blank.yaml'' then Inr YNull
                          else Inl (Error ''open'')),
      construct = demo_construct,
      connect = demo_connect,
      list_tools = demo_list_tools,
      cleanup = demo_cleanup,
      process = (\<lambda>h w. Inr (if fst h = ''clock'' then Some 7 else None)),
      terminate = (\<lambda>p w. (None, w)),
      sleep = (\<lambda>w. w),
      poll = (\<lambda>p w. (Inr True, w)),
      kill = (\<lambda>p w. (Some (Error ''kill''), w)),
      get_all_function_tools =
        (\<lambda>hs w. (Inr (concat (map (\<lambda>h. case fst (demo_list_tools h w) of
                                           Inl e \<Rightarrow> [] | Inr ts \<Rightarrow> ts) hs)), w))\<rparr>"

definition fresh :: "(demo_server, string, string list) manager" where
  "fresh = init []"

text \<open>The manager after \<^verbatim>\<open>load_config(p)\<close> on a fresh instance.\<close>

definition loaded :: "string \<Rightarrow> (demo_server, string, string list) manager" where
  "loaded p = snd (load_config demo_env (Some p) fresh)"

text \<open>The manager after \<^verbatim>\<open>add_server("x", h)\<close> for the server \<open>files\<close> on a fresh instance.\<close>

definition registered :: "(demo_server, string, string list) manager" where
  "registered = snd (add_server demo_env ''x'' (''files'', True) fresh)"

text \<open>
  The manager after two calls of \<^verbatim>\<open>add_server\<close>: \<open>a\<close> is the server \<open>flaky\<close>, which has
  listed its tools once by now, and \<open>b\<close> is the server \<open>files\<close>.
\<close>

definition two_servers :: "(demo_server, string, string list) manager" where
  "two_servers =
     run demo_env [AddServer ''a'' (''flaky'', True), AddServer ''b'' (''files'', True)] fresh"

section \<open>Properties\<close>

subsection \<open>Auxiliary facts\<close>

lemmas demo_simps = fresh_def demo_env_def demo_connect_def demo_list_tools_def demo_cleanup_def
  demo_config_def init_def

lemma emit_simps [simp]:
  "servers (emit ev s) = servers s"
  "tools (emit ev s) = tools s"
  "config (emit ev s) = config s"
  "world (emit ev s) = world s"
  "out (emit ev s) = out s @ [ev]"
  by (simp_all add: emit_def)

lemma has_server_emit [simp]: "has_server name (emit ev s) = has_server name s"
  by (simp add: has_server_def)

lemma drop_absent:
  "(if has_server name s then s\<lparr>servers := AList.delete name (servers s)\<rparr> else s)
     = s\<lparr>servers := AList.delete name (servers s)\<rparr>"
  by (simp add: has_server_def map_of_eq_None_iff)

lemma add_server_failed_eq:
  "add_server_failed name e s =
     (Some e, s\<lparr>servers := AList.delete name (servers s), out := out s @ [AddError name e]\<rparr>)"
  unfolding add_server_failed_def Let_def drop_absent by (simp add: emit_def)

lemma add_server_connect_fails:
  assumes "connect env server (world s) = (Some e, w1)"
  shows "add_server env name server s =
     (Some e, s\<lparr>servers := AList.delete name (servers s), world := w1,
                 out := out s @ [Connecting name, AddError name e]\<rparr>)"
  using assms by (simp add: add_server_def add_server_failed_eq emit_def)

lemma add_server_fetch_fails:
  assumes "connect env server (world s) = (None, w1)"
    and "list_tools env server w1 = (Inl e, w2)"
  shows "add_server env name server s =
     (Some e, s\<lparr>servers := AList.delete name (servers s), world := w2,
                 out := out s @ [Connecting name, FetchingTools name, AddError name e]\<rparr>)"
  using assms by (simp add: add_server_def add_server_failed_eq emit_def AList.delete_update_same)

lemma add_server_succeeds:
  assumes "connect env server (world s) = (None, w1)"
    and "list_tools env server w1 = (Inr ts, w2)"
  shows "add_server env name server s =
     (None, s\<lparr>servers := AList.update name server (servers s),
               tools := AList.update name ts (tools s), world := w2,
               out := out s @ [Connecting name, FetchingTools name, FetchedTools name (length ts)]\<rparr>)"
  using assms by (simp add: add_server_def emit_def)

lemma add_server_cases [case_names connect_fails fetch_fails ok]:
  obtains
    (connect_fails) e w1 where "connect env server (world s) = (Some e, w1)"
  | (fetch_fails) e w1 w2 where "connect env server (world s) = (None, w1)"
      and "list_tools env server w1 = (Inl e, w2)"
  | (ok) ts w1 w2 where "connect env server (world s) = (None, w1)"
      and "list_tools env server w1 = (Inr ts, w2)"
proof (cases "connect env server (world s)")
  case (Pair r w1)
  show ?thesis
  proof (cases r)
    case (Some e)
    with Pair show ?thesis using connect_fails by simp
  next
    case None
    obtain q w2 where lt: "list_tools env server w1 = (q, w2)" by (cases "list_tools env server w1")
    show ?thesis
    proof (cases q)
      case (Inl e)
      with Pair None lt show ?thesis using fetch_fails by simp
    next
      case (Inr ts)
      with Pair None lt show ?thesis using ok by simp
    qed
  qed
qed

lemma add_server_config [simp]: "config (snd (add_server env name server s)) = config s"
proof (cases rule: add_server_cases [of env server s])
  case (connect_fails e w1)
  then show ?thesis by (simp add: add_server_connect_fails)
next
  case (fetch_fails e w1 w2)
  then show ?thesis by (simp add: add_server_fetch_fails)
next
  case (ok ts w1 w2)
  then show ?thesis by (simp add: add_server_succeeds)
qed

lemma add_server_out:
  "\<exists>evs. out (snd (add_server env name server s)) = out s @ Connecting name # evs"
proof (cases rule: add_server_cases [of env server s])
  case (connect_fails e w1)
  then show ?thesis by (simp add: add_server_connect_fails)
next
  case (fetch_fails e w1 w2)
  then show ?thesis by (simp add: add_server_fetch_fails)
next
  case (ok ts w1 w2)
  then show ?thesis by (simp add: add_server_succeeds)
qed

lemma add_server_raises:
  assumes "fst (add_server env name server s) = Some e"
  shows "servers (snd (add_server env name server s)) = AList.delete name (servers s)
    \<and> tools (snd (add_server env name server s)) = tools s
    \<and> AddError name e \<in> set (drop (length (out s)) (out (snd (add_server env name server s))))"
proof (cases rule: add_server_cases [of env server s])
  case (connect_fails e' w1)
  with assms show ?thesis by (simp add: add_server_connect_fails)
next
  case (fetch_fails e' w1 w2)
  with assms show ?thesis by (simp add: add_server_fetch_fails)
next
  case (ok ts w1 w2)
  with assms show ?thesis by (simp add: add_server_succeeds)
qed

lemma add_server_returns:
  assumes "fst (add_server env name server s) = None"
  shows "servers (snd (add_server env name server s)) = AList.update name server (servers s)
    \<and> (\<exists>ts. tools (snd (add_server env name server s)) = AList.update name ts (tools s))"
proof (cases rule: add_server_cases [of env server s])
  case (connect_fails e' w1)
  with assms show ?thesis by (simp add: add_server_connect_fails)
next
  case (fetch_fails e' w1 w2)
  with assms show ?thesis by (simp add: add_server_fetch_fails)
next
  case (ok ts w1 w2)
  with assms show ?thesis by (auto simp add: add_server_succeeds)
qed

lemma add_server_other:
  assumes "m \<noteq> name"
  shows "map_of (servers (snd (add_server env name server s))) m = map_of (servers s) m
    \<and> map_of (tools (snd (add_server env name server s))) m = map_of (tools s) m"
proof (cases rule: add_server_cases [of env server s])
  case (connect_fails e' w1)
  with assms show ?thesis by (simp add: add_server_connect_fails AList.delete_conv')
next
  case (fetch_fails e' w1 w2)
  with assms show ?thesis by (simp add: add_server_fetch_fails AList.delete_conv')
next
  case (ok ts w1 w2)
  with assms show ?thesis by (simp add: add_server_succeeds AList.update_conv')
qed

lemma map_of_delete_same [simp]: "map_of (AList.delete k xs) k = None"
  by (simp add: AList.delete_conv')

lemma set_delete: "set (AList.delete k xs) = {p \<in> set xs. fst p \<noteq> k}"
  by (auto simp: AList.delete_eq)

lemma force_terminate_frame [simp]:
  "servers (force_terminate env name p s) = servers s"
  "tools (force_terminate env name p s) = tools s"
  "config (force_terminate env name p s) = config s"
  by (simp_all add: force_terminate_def split: prod.splits option.splits sum.splits)

lemma cleanup_server_frame [simp]:
  "servers (snd (cleanup_server env name server s)) = servers s"
  "tools (snd (cleanup_server env name server s)) = tools s"
  "config (snd (cleanup_server env name server s)) = config s"
  by (simp_all add: cleanup_server_def Let_def split: prod.splits option.splits sum.splits)

lemma close_server_frame [simp]:
  "servers (close_server env name server s) = AList.delete name (servers s)"
  "tools (close_server env name server s) = tools s"
  "config (close_server env name server s) = config s"
proof -
  obtain r s2 where c: "cleanup_server env name server (emit (Closing name) s) = (r, s2)"
    by (cases "cleanup_server env name server (emit (Closing name) s)")
  have fr: "servers s2 = servers s" "tools s2 = tools s" "config s2 = config s"
    using cleanup_server_frame [of env name server "emit (Closing name) s"] c by simp_all
  show "servers (close_server env name server s) = AList.delete name (servers s)"
    unfolding close_server_def Let_def drop_absent using c fr by (cases r) simp_all
  show "tools (close_server env name server s) = tools s"
    unfolding close_server_def Let_def drop_absent using c fr by (cases r) simp_all
  show "config (close_server env name server s) = config s"
    unfolding close_server_def Let_def drop_absent using c fr by (cases r) simp_all
qed

lemma close_loop_servers:
  "set (servers (close_loop env xs s)) \<subseteq> {p \<in> set (servers s). fst p \<notin> fst ` set xs}"
proof (induction xs arbitrary: s)
  case Nil
  then show ?case by simp
next
  case (Cons x xs)
  obtain name server where x: "x = (name, server)" by (cases x)
  have "set (servers (close_loop env xs (close_server env name server s)))
      \<subseteq> {p \<in> set (AList.delete name (servers s)). fst p \<notin> fst ` set xs}"
    using Cons.IH [of "close_server env name server s"] by simp
  then show ?case unfolding x by (auto simp: set_delete)
qed

lemma close_loop_all [simp]: "servers (close_loop env (servers s) s) = []"
proof -
  have "set (servers (close_loop env (servers s) s)) \<subseteq> {}"
    using close_loop_servers [of env "servers s" s] by force
  then show ?thesis by simp
qed

lemma init_entry_cases [case_names bad_entry bad_server added skipped]:
  obtains
    (bad_entry) e where "command_line sc = Inl e"
      and "init_entry env n sc s = (Some e, emit (InitServer n) s)"
  | (bad_server) cmd j e where "command_line sc = Inr (cmd, j)"
      and "make_server env n sc = Inl e"
      and "init_entry env n sc s = (Some e, emit (InitCommand cmd j) (emit (InitServer n) s))"
  | (added) cmd j h where "command_line sc = Inr (cmd, j)"
      and "make_server env n sc = Inr h"
      and "fst (add_server env n h (emit (InitCommand cmd j) (emit (InitServer n) s))) = None"
      and "init_entry env n sc s =
        (None, emit (InitOk n)
           (snd (add_server env n h (emit (InitCommand cmd j) (emit (InitServer n) s)))))"
  | (skipped) cmd j h e where "command_line sc = Inr (cmd, j)"
      and "make_server env n sc = Inr h"
      and "fst (add_server env n h (emit (InitCommand cmd j) (emit (InitServer n) s))) = Some e"
      and "init_entry env n sc s =
        (None, emit (InitFailed n e)
           (snd (add_server env n h (emit (InitCommand cmd j) (emit (InitServer n) s)))))"
proof (cases "command_line sc")
  case (Inl e)
  then have "init_entry env n sc s = (Some e, emit (InitServer n) s)"
    by (simp add: init_entry_def)
  with Inl show ?thesis by (rule bad_entry)
next
  case (Inr cj)
  obtain cmd j where cj: "cj = (cmd, j)" by (cases cj)
  let ?s2 = "emit (InitCommand cmd j) (emit (InitServer n) s)"
  show ?thesis
  proof (cases "make_server env n sc")
    case (Inl e)
    with Inr cj have "init_entry env n sc s = (Some e, ?s2)"
      by (simp add: init_entry_def)
    with Inr cj Inl show ?thesis using bad_server by simp
  next
    case mk: (Inr h)
    obtain r s3 where a: "add_server env n h ?s2 = (r, s3)" by (cases "add_server env n h ?s2")
    show ?thesis
    proof (cases r)
      case None
      with Inr cj mk a have "init_entry env n sc s = (None, emit (InitOk n) s3)"
        by (simp add: init_entry_def)
      with Inr cj mk a None show ?thesis using added [of cmd j h] by simp
    next
      case (Some e)
      with Inr cj mk a have "init_entry env n sc s = (None, emit (InitFailed n e) s3)"
        by (simp add: init_entry_def)
      with Inr cj mk a Some show ?thesis using skipped [of cmd j h e] by simp
    qed
  qed
qed

lemma init_entry_config [simp]: "config (snd (init_entry env n sc s)) = config s"
  by (cases rule: init_entry_cases [of sc env n s]) simp_all

lemma init_entry_other:
  assumes "m \<noteq> n"
  shows "map_of (servers (snd (init_entry env n sc s))) m = map_of (servers s) m
    \<and> map_of (tools (snd (init_entry env n sc s))) m = map_of (tools s) m"
  using assms by (cases rule: init_entry_cases [of sc env n s]) (simp_all add: add_server_other)

lemma init_entry_out: "\<exists>evs. out (snd (init_entry env n sc s)) = out s @ evs"
proof (cases rule: init_entry_cases [of sc env n s])
  case (added cmd j h)
  then show ?thesis
    using add_server_out [of env n h "emit (InitCommand cmd j) (emit (InitServer n) s)"] by auto
next
  case (skipped cmd j h e)
  then show ?thesis
    using add_server_out [of env n h "emit (InitCommand cmd j) (emit (InitServer n) s)"] by auto
qed simp_all

lemma init_loop_config [simp]: "config (snd (init_loop env es s)) = config s"
proof (induction es arbitrary: s)
  case Nil
  then show ?case by simp
next
  case (Cons x es)
  obtain n sc where x: "x = (n, sc)" by (cases x)
  obtain r s' where i: "init_entry env n sc s = (r, s')" by (cases "init_entry env n sc s")
  have c: "config s' = config s" using init_entry_config [of env n sc s] i by simp
  show ?case using Cons.IH [of s'] i c unfolding x by (cases r) simp_all
qed

lemma init_loop_out: "\<exists>evs. out (snd (init_loop env es s)) = out s @ evs"
proof (induction es arbitrary: s)
  case Nil
  then show ?case by simp
next
  case (Cons x es)
  obtain n sc where x: "x = (n, sc)" by (cases x)
  obtain r s' where i: "init_entry env n sc s = (r, s')" by (cases "init_entry env n sc s")
  obtain evs where e: "out s' = out s @ evs" using init_entry_out [of env n sc s] i by auto
  show ?case using Cons.IH [of s'] i e unfolding x by (cases r) auto
qed

lemma init_loop_other:
  assumes "m \<notin> fst ` set es"
  shows "map_of (servers (snd (init_loop env es s))) m = map_of (servers s) m
    \<and> map_of (tools (snd (init_loop env es s))) m = map_of (tools s) m"
  using assms
proof (induction es arbitrary: s)
  case Nil
  then show ?case by simp
next
  case (Cons x es)
  obtain n sc where x: "x = (n, sc)" by (cases x)
  obtain r s' where i: "init_entry env n sc s = (r, s')" by (cases "init_entry env n sc s")
  from Cons.prems x have mn: "m \<noteq> n" and rest: "m \<notin> fst ` set es" by auto
  have c: "map_of (servers s') m = map_of (servers s) m \<and> map_of (tools s') m = map_of (tools s) m"
    using init_entry_other [OF mn, of env sc s] i by simp
  show ?case using Cons.IH [OF rest, of s'] i c unfolding x by (cases r) simp_all
qed




lemma drop_out: "out s' = out s @ evs \<Longrightarrow> drop (length (out s)) (out s') = evs"
  by simp

lemma update_absent: "k \<notin> fst ` set al \<Longrightarrow> AList.update k v al = al @ [(k, v)]"
  by (induction al) auto

lemma load_config_frame [simp]:
  "servers (snd (load_config env p s)) = servers s"
  "tools (snd (load_config env p s)) = tools s"
  "world (snd (load_config env p s)) = world s"
  by (simp_all add: load_config_def Let_def split: sum.splits)

lemma load_config_out: "\<exists>evs. out (snd (load_config env p s)) = out s @ evs"
  by (simp add: load_config_def Let_def split: sum.splits)

lemma effective_frame:
  assumes "(if \<not> truthy (config s) then load_config env None s else (None, s)) = (None, s1)"
  shows "servers s1 = servers s" and "tools s1 = tools s" and "world s1 = world s"
    and "\<exists>evs. out s1 = out s @ evs"
proof -
  have s1: "s1 = snd (if \<not> truthy (config s) then load_config env None s else (None, s))"
    using assms by simp
  show "servers s1 = servers s" and "tools s1 = tools s" and "world s1 = world s"
    unfolding s1 by simp_all
  show "\<exists>evs. out s1 = out s @ evs"
    unfolding s1 using load_config_out [of env None s] by simp
qed

lemma initialize_servers_effective:
  assumes "(if \<not> truthy (config s) then load_config env None s else (None, s)) = (None, s1)"
    and "py_get (config s1) ''servers'' (YDict []) = Inr (YDict es)"
  shows "initialize_servers env s =
     (case init_loop env es (emit InitStart s1) of
        (Some e, s3) \<Rightarrow> (Some e, s3)
      | (None, s3) \<Rightarrow> (None, emit InitDone s3))"
  using assms by (simp add: initialize_servers_def and_then_def)

lemma init_entry_ok:
  assumes "usable_entry env n sc"
    and "\<forall>h. make_server env n sc = Inr h \<longrightarrow>
           fst (connect env h (world s)) = None
           \<and> \<not> isl (fst (list_tools env h (snd (connect env h (world s)))))"
  shows "\<exists>s1 h ts. init_entry env n sc s = (None, s1)
     \<and> servers s1 = AList.update n h (servers s) \<and> tools s1 = AList.update n ts (tools s)"
proof (cases rule: init_entry_cases [of sc env n s])
  case (bad_entry e)
  with assms(1) show ?thesis by (simp add: usable_entry_def)
next
  case (bad_server cmd j e)
  with assms(1) show ?thesis by (simp add: usable_entry_def)
next
  case (added cmd j h)
  let ?s2 = "emit (InitCommand cmd j) (emit (InitServer n) s)"
  from add_server_returns [OF added(3)]
  obtain ts where "servers (snd (add_server env n h ?s2)) = AList.update n h (servers s)"
    and "tools (snd (add_server env n h ?s2)) = AList.update n ts (tools s)"
    by auto
  with added(4) show ?thesis by auto
next
  case (skipped cmd j h e)
  let ?s2 = "emit (InitCommand cmd j) (emit (InitServer n) s)"
  from assms(2) skipped(2)
  have c: "fst (connect env h (world ?s2)) = None"
    and l: "\<not> isl (fst (list_tools env h (snd (connect env h (world ?s2)))))"
    by simp_all
  have "fst (add_server env n h ?s2) = None"
  proof (cases rule: add_server_cases [of env h ?s2])
    case (connect_fails e w1)
    with c show ?thesis by simp
  next
    case (fetch_fails e w1 w2)
    with l show ?thesis by simp
  next
    case (ok ts w1 w2)
    then show ?thesis by (simp add: add_server_succeeds)
  qed
  with skipped(3) show ?thesis by simp
qed

lemma init_loop_all_ok:
  assumes "\<forall>(n, sc) \<in> set es. usable_entry env n sc"
    and "\<forall>i < length es. \<forall>h. make_server env (fst (es ! i)) (snd (es ! i)) = Inr h \<longrightarrow>
           fst (connect env h (world (snd (init_loop env (take i es) s)))) = None
           \<and> \<not> isl (fst (list_tools env h
                  (snd (connect env h (world (snd (init_loop env (take i es) s)))))))"
    and "distinct (map fst (servers s) @ map fst es)"
    and "distinct (map fst (tools s) @ map fst es)"
  shows "\<exists>s'. init_loop env es s = (None, s')
     \<and> map fst (servers s') = map fst (servers s) @ map fst es
     \<and> map fst (tools s') = map fst (tools s) @ map fst es"
  using assms
proof (induction es arbitrary: s)
  case Nil
  then show ?case by simp
next
  case (Cons x es)
  obtain n sc where x: "x = (n, sc)" by (cases x)
  from Cons.prems(1) x have u: "usable_entry env n sc"
    and us: "\<forall>(n, sc) \<in> set es. usable_entry env n sc"
    by auto
  have hd: "\<forall>h. make_server env n sc = Inr h \<longrightarrow>
           fst (connect env h (world s)) = None
           \<and> \<not> isl (fst (list_tools env h (snd (connect env h (world s)))))"
    using Cons.prems(2) [rule_format, of 0] unfolding x by simp
  from Cons.prems(3,4) x have ns: "n \<notin> fst ` set (servers s)" and nt: "n \<notin> fst ` set (tools s)"
    by auto
  obtain s1 h ts where e1: "init_entry env n sc s = (None, s1)"
    and sv: "servers s1 = AList.update n h (servers s)"
    and tl: "tools s1 = AList.update n ts (tools s)"
    using init_entry_ok [OF u hd] by blast
  have sv': "servers s1 = servers s @ [(n, h)]" using sv update_absent [OF ns] by simp
  have tl': "tools s1 = tools s @ [(n, ts)]" using tl update_absent [OF nt] by simp
  have d1: "distinct (map fst (servers s1) @ map fst es)"
    using Cons.prems(3) x sv' by simp
  have d2: "distinct (map fst (tools s1) @ map fst es)"
    using Cons.prems(4) x tl' by simp
  have rest: "\<forall>i < length es. \<forall>h. make_server env (fst (es ! i)) (snd (es ! i)) = Inr h \<longrightarrow>
           fst (connect env h (world (snd (init_loop env (take i es) s1)))) = None
           \<and> \<not> isl (fst (list_tools env h
                  (snd (connect env h (world (snd (init_loop env (take i es) s1)))))))"
  proof (intro allI impI)
    fix i h assume i: "i < length es" and mk: "make_server env (fst (es ! i)) (snd (es ! i)) = Inr h"
    have "init_loop env (take (Suc i) (x # es)) s = init_loop env (take i es) s1"
      unfolding x using e1 by simp
    with Cons.prems(2) [rule_format, of "Suc i" h] i mk
    show "fst (connect env h (world (snd (init_loop env (take i es) s1)))) = None
           \<and> \<not> isl (fst (list_tools env h
                  (snd (connect env h (world (snd (init_loop env (take i es) s1)))))))"
      by simp
  qed
  obtain s' where "init_loop env es s1 = (None, s')"
    and "map fst (servers s') = map fst (servers s1) @ map fst es"
    and "map fst (tools s') = map fst (tools s1) @ map fst es"
    using Cons.IH [OF us rest d1 d2] by blast
  then show ?case unfolding x using e1 sv' tl' by simp
qed


lemmas run_simps = initialize_servers_def init_entry_def command_line_def make_server_def
  and_then_def add_server_def add_server_failed_def emit_def has_server_def get_server_def
  get_server_tools_def Let_def

lemmas demo_files = files_entry_def clock_entry_def healthy_config_def flaky_config_def
  broken_config_def loaded_def registered_def load_config_def default_path_def

lemma refresh_server_frame [simp]:
  "servers (refresh_server env name server s) = servers s"
  "config (refresh_server env name server s) = config s"
  by (simp_all add: refresh_server_def Let_def split: prod.splits sum.splits)

lemma refresh_server_fetched:
  assumes "fst (list_tools env server (world s)) = Inr ts"
  shows "tools (refresh_server env name server s) = AList.update name ts (tools s)"
    and "out (refresh_server env name server s)
           = out s @ [Refreshing name, Refreshed name (length ts)]"
proof -
  obtain w where "list_tools env server (world s) = (Inr ts, w)"
    using assms by (cases "list_tools env server (world s)") simp
  then show "tools (refresh_server env name server s) = AList.update name ts (tools s)"
    and "out (refresh_server env name server s)
           = out s @ [Refreshing name, Refreshed name (length ts)]"
    by (simp_all add: refresh_server_def)
qed

lemma refresh_server_failed:
  assumes "fst (list_tools env server (world s)) = Inl e"
  shows "tools (refresh_server env name server s) = tools s"
    and "out (refresh_server env name server s) = out s @ [Refreshing name, RefreshError name e]"
proof -
  obtain w where "list_tools env server (world s) = (Inl e, w)"
    using assms by (cases "list_tools env server (world s)") simp
  then show "tools (refresh_server env name server s) = tools s"
    and "out (refresh_server env name server s) = out s @ [Refreshing name, RefreshError name e]"
    by (simp_all add: refresh_server_def)
qed

lemma refresh_server_out: "\<exists>evs. out (refresh_server env name server s) = out s @ evs"
  by (cases "fst (list_tools env server (world s))")
    (simp_all add: refresh_server_fetched refresh_server_failed)

lemma refresh_server_other:
  assumes "m \<noteq> name"
  shows "map_of (tools (refresh_server env name server s)) m = map_of (tools s) m"
  using assms
  by (cases "fst (list_tools env server (world s))")
    (simp_all add: refresh_server_fetched refresh_server_failed AList.update_conv')

lemma refresh_loop_frame [simp]:
  "servers (refresh_loop env xs s) = servers s"
  "config (refresh_loop env xs s) = config s"
  by (induction xs arbitrary: s) auto

lemma refresh_loop_out: "\<exists>evs. out (refresh_loop env xs s) = out s @ evs"
proof (induction xs arbitrary: s)
  case Nil
  then show ?case by simp
next
  case (Cons x xs)
  obtain n h where x: "x = (n, h)" by (cases x)
  obtain evs1 where "out (refresh_server env n h s) = out s @ evs1"
    using refresh_server_out [of env n h s] by blast
  moreover obtain evs2 where "out (refresh_loop env xs (refresh_server env n h s))
      = out (refresh_server env n h s) @ evs2"
    using Cons.IH [of "refresh_server env n h s"] by blast
  ultimately show ?case unfolding x by simp
qed

lemma refresh_loop_other:
  assumes "m \<notin> fst ` set xs"
  shows "map_of (tools (refresh_loop env xs s)) m = map_of (tools s) m"
  using assms
proof (induction xs arbitrary: s)
  case Nil
  then show ?case by simp
next
  case (Cons x xs)
  obtain n h where x: "x = (n, h)" by (cases x)
  from Cons.prems x have mn: "m \<noteq> n" and rest: "m \<notin> fst ` set xs" by auto
  show ?case
    unfolding x using Cons.IH [OF rest, of "refresh_server env n h s"]
      refresh_server_other [OF mn, of env h s] by simp
qed

lemma refresh_loop_at:
  assumes "distinct (map fst xs)" and "j < length xs" and "xs ! j = (n, h)"
  shows "\<exists>evs. out (refresh_loop env xs s) = out s @ evs \<and>
     (case fst (list_tools env h (world (refresh_loop env (take j xs) s))) of
        Inr ts \<Rightarrow> map_of (tools (refresh_loop env xs s)) n = Some ts
                    \<and> Refreshed n (length ts) \<in> set evs
      | Inl e \<Rightarrow> map_of (tools (refresh_loop env xs s)) n = map_of (tools s) n
                    \<and> RefreshError n e \<in> set evs)"
  using assms
proof (induction xs arbitrary: s j)
  case Nil
  then show ?case by simp
next
  case (Cons x xs)
  obtain m g where x: "x = (m, g)" by (cases x)
  let ?s1 = "refresh_server env m g s"
  from Cons.prems(1) x have fresh: "m \<notin> fst ` set xs" and d: "distinct (map fst xs)" by auto
  obtain evs1 where o1: "out ?s1 = out s @ evs1"
    using refresh_server_out [of env m g s] by blast
  obtain evs2 where o2: "out (refresh_loop env xs ?s1) = out ?s1 @ evs2"
    using refresh_loop_out [of env xs ?s1] by blast
  show ?case
  proof (cases j)
    case 0
    with Cons.prems(3) x have nm: "n = m" and hg: "h = g" by simp_all
    have keep: "map_of (tools (refresh_loop env xs ?s1)) m = map_of (tools ?s1) m"
      by (rule refresh_loop_other [OF fresh])
    show ?thesis
    proof (cases "fst (list_tools env g (world s))")
      case (Inl e)
      have "map_of (tools (refresh_loop env xs ?s1)) m = map_of (tools s) m"
        using keep refresh_server_failed(1) [OF Inl, of m] by simp
      moreover have "RefreshError m e \<in> set (evs1 @ evs2)"
        using o1 refresh_server_failed(2) [OF Inl, of m] by auto
      ultimately show ?thesis
        unfolding x using 0 nm hg Inl o1 o2 by (intro exI [of _ "evs1 @ evs2"]) simp
    next
      case (Inr ts)
      have "map_of (tools (refresh_loop env xs ?s1)) m = Some ts"
        using keep refresh_server_fetched(1) [OF Inr, of m] by (simp add: AList.update_conv')
      moreover have "Refreshed m (length ts) \<in> set (evs1 @ evs2)"
        using o1 refresh_server_fetched(2) [OF Inr, of m] by auto
      ultimately show ?thesis
        unfolding x using 0 nm hg Inr o1 o2 by (intro exI [of _ "evs1 @ evs2"]) simp
    qed
  next
    case (Suc k)
    with Cons.prems(2,3) have k: "k < length xs" and xk: "xs ! k = (n, h)" by simp_all
    from xk k have "n \<in> fst ` set xs" by (metis fst_conv image_eqI nth_mem)
    with fresh have nm: "n \<noteq> m" by auto
    obtain evs where o: "out (refresh_loop env xs ?s1) = out ?s1 @ evs"
      and c: "(case fst (list_tools env h (world (refresh_loop env (take k xs) ?s1))) of
        Inr ts \<Rightarrow> map_of (tools (refresh_loop env xs ?s1)) n = Some ts
                    \<and> Refreshed n (length ts) \<in> set evs
      | Inl e \<Rightarrow> map_of (tools (refresh_loop env xs ?s1)) n = map_of (tools ?s1) n
                    \<and> RefreshError n e \<in> set evs)"
      using Cons.IH [OF d k xk, of ?s1] by blast
    have t1: "map_of (tools ?s1) n = map_of (tools s) n"
      by (rule refresh_server_other [OF nm])
    have B: "(case fst (list_tools env h (world (refresh_loop env (take k xs) ?s1))) of
        Inr ts \<Rightarrow> map_of (tools (refresh_loop env xs ?s1)) n = Some ts
                    \<and> Refreshed n (length ts) \<in> set (evs1 @ evs)
      | Inl e \<Rightarrow> map_of (tools (refresh_loop env xs ?s1)) n = map_of (tools s) n
                    \<and> RefreshError n e \<in> set (evs1 @ evs))"
      using c t1 by (cases "fst (list_tools env h (world (refresh_loop env (take k xs) ?s1)))") simp_all
    have A: "out (refresh_loop env xs ?s1) = out s @ (evs1 @ evs)"
      using o o1 by simp
    have rw: "refresh_loop env (x # xs) s = refresh_loop env xs ?s1"
      unfolding x by simp
    have rw2: "refresh_loop env (take j (x # xs)) s = refresh_loop env (take k xs) ?s1"
      unfolding x Suc by simp
    show ?thesis
      unfolding rw rw2 by (intro exI [of _ "evs1 @ evs"] conjI) (rule A, rule B)
  qed
qed

lemma refresh_tools_eq:
  "refresh_tools env s = (None, refresh_loop env (servers s) (emit RefreshStart s))"
  by (simp add: refresh_tools_def)

lemma refresh_tools_at:
  assumes "distinct (map fst (servers s))" and "j < length (servers s)"
    and "servers s ! j = (n, h)"
  shows "case fst (list_tools env h
                 (world (refresh_loop env (take j (servers s)) (emit RefreshStart s)))) of
       Inr ts \<Rightarrow> map_of (tools (snd (refresh_tools env s))) n = Some ts
         \<and> Refreshed n (length ts)
             \<in> set (drop (length (out s)) (out (snd (refresh_tools env s))))
     | Inl e \<Rightarrow> map_of (tools (snd (refresh_tools env s))) n = map_of (tools s) n
         \<and> RefreshError n e
             \<in> set (drop (length (out s)) (out (snd (refresh_tools env s))))"
proof -
  let ?s0 = "emit RefreshStart s"
  let ?s' = "refresh_loop env (servers s) ?s0"
  let ?r = "fst (list_tools env h (world (refresh_loop env (take j (servers s)) ?s0)))"
  obtain evs where o: "out ?s' = out ?s0 @ evs"
    and c: "(case ?r of
        Inr ts \<Rightarrow> map_of (tools ?s') n = Some ts \<and> Refreshed n (length ts) \<in> set evs
      | Inl e \<Rightarrow> map_of (tools ?s') n = map_of (tools ?s0) n \<and> RefreshError n e \<in> set evs)"
    using refresh_loop_at [OF assms, of env ?s0] by blast
  have d: "drop (length (out s)) (out ?s') = RefreshStart # evs" using o by simp
  show ?thesis
    unfolding refresh_tools_eq snd_conv d using c by (cases ?r) simp_all
qed

lemma consistent_init [simp]: "consistent (init w)"
  by (simp add: consistent_def init_def)

lemma consistent_frame:
  assumes "consistent s" and "servers s' = servers s" and "tools s' = tools s"
    and "set (out s) \<subseteq> set (out s')"
  shows "consistent s'"
  using assms unfolding consistent_def by auto

lemma consistent_emit [simp]: "consistent s \<Longrightarrow> consistent (emit ev s)"
  by (rule consistent_frame [of s]) auto

lemma load_config_consistent: "consistent s \<Longrightarrow> consistent (snd (load_config env p s))"
proof (rule consistent_frame [of s])
  obtain evs where "out (snd (load_config env p s)) = out s @ evs"
    using load_config_out [of env p s] by blast
  then show "set (out s) \<subseteq> set (out (snd (load_config env p s)))" by simp
qed simp_all

lemma add_server_consistent:
  assumes "consistent s"
  shows "consistent (snd (add_server env name server s))"
proof (cases rule: add_server_cases [of env server s])
  case (connect_fails e w1)
  then show ?thesis
    using assms by (auto simp add: add_server_connect_fails consistent_def set_delete)
next
  case (fetch_fails e w1 w2)
  then show ?thesis
    using assms by (auto simp add: add_server_fetch_fails consistent_def set_delete)
next
  case (ok ts w1 w2)
  then show ?thesis
    using assms by (auto simp add: add_server_succeeds consistent_def AList.dom_update)
qed

lemma init_entry_consistent:
  assumes "consistent s"
  shows "consistent (snd (init_entry env n sc s))"
  using assms
  by (cases rule: init_entry_cases [of sc env n s]) (simp_all add: add_server_consistent)

lemma init_loop_consistent:
  assumes "consistent s"
  shows "consistent (snd (init_loop env es s))"
  using assms
proof (induction es arbitrary: s)
  case Nil
  then show ?case by simp
next
  case (Cons x es)
  obtain n sc where x: "x = (n, sc)" by (cases x)
  obtain r s1 where i: "init_entry env n sc s = (r, s1)" by (cases "init_entry env n sc s")
  have c: "consistent s1" using init_entry_consistent [OF Cons.prems, of env n sc] i by simp
  show ?case using Cons.IH [OF c] i c unfolding x by (cases r) simp_all
qed

lemma initialize_servers_consistent:
  assumes "consistent s"
  shows "consistent (snd (initialize_servers env s))"
proof -
  obtain r s1 where l: "(if \<not> truthy (config s) then load_config env None s else (None, s)) = (r, s1)"
    by (cases "if \<not> truthy (config s) then load_config env None s else (None, s)")
  have c1: "consistent s1"
    using l assms load_config_consistent [OF assms, of env None] by (auto split: if_splits)
  show ?thesis
  proof (cases r)
    case (Some e)
    with l c1 show ?thesis by (simp add: initialize_servers_def)
  next
    case None
    let ?s2 = "emit InitStart s1"
    have c2: "consistent ?s2" using c1 by simp
    show ?thesis
    proof (cases "and_then (py_get (config ?s2) ''servers'' (YDict [])) py_items")
      case (Inl e)
      with l None c2 show ?thesis by (simp add: initialize_servers_def)
    next
      case (Inr es)
      obtain q s3 where i: "init_loop env es ?s2 = (q, s3)" by (cases "init_loop env es ?s2")
      have c3: "consistent s3" using init_loop_consistent [OF c2, of env es] i by simp
      have "snd (initialize_servers env s) = s3 \<or> snd (initialize_servers env s) = emit InitDone s3"
        using l None Inr i by (cases q) (simp_all add: initialize_servers_def)
      with c3 show ?thesis by auto
    qed
  qed
qed

lemma get_all_tools_consistent: "consistent s \<Longrightarrow> consistent (snd (get_all_tools env s))"
  by (rule consistent_frame [of s])
    (auto simp add: get_all_tools_def Let_def split: prod.splits sum.splits)

lemma refresh_server_consistent:
  assumes "consistent s" and "n \<in> fst ` set (servers s)"
  shows "consistent (refresh_server env n h s)"
proof (cases "fst (list_tools env h (world s))")
  case (Inl e)
  show ?thesis
    using assms(1) by (rule consistent_frame) (auto simp add: refresh_server_failed [OF Inl])
next
  case (Inr ts)
  from assms have "n \<in> fst ` set (tools s)" unfolding consistent_def by auto
  then have "fst ` set (AList.update n ts (tools s)) = fst ` set (tools s)"
    by (auto simp add: AList.dom_update)
  with assms(1) show ?thesis
    unfolding consistent_def by (auto simp add: refresh_server_fetched [OF Inr])
qed

lemma refresh_loop_consistent:
  assumes "consistent s" and "fst ` set xs \<subseteq> fst ` set (servers s)"
  shows "consistent (refresh_loop env xs s)"
  using assms
proof (induction xs arbitrary: s)
  case Nil
  then show ?case by simp
next
  case (Cons x xs)
  obtain n h where x: "x = (n, h)" by (cases x)
  from Cons.prems(2) x have n: "n \<in> fst ` set (servers s)"
    and rest: "fst ` set xs \<subseteq> fst ` set (servers (refresh_server env n h s))"
    by auto
  show ?case
    unfolding x using Cons.IH [OF refresh_server_consistent [OF Cons.prems(1) n] rest] by simp
qed

lemma refresh_tools_consistent: "consistent s \<Longrightarrow> consistent (snd (refresh_tools env s))"
  unfolding refresh_tools_eq snd_conv by (rule refresh_loop_consistent) simp_all

lemma close_fields:
  "servers (snd (close env s)) = []" "tools (snd (close env s)) = []"
proof -
  have "servers (close_loop env (servers (emit CloseStart s)) (emit CloseStart s)) = []"
    by (rule close_loop_all)
  then show "servers (snd (close env s)) = []" by (simp add: close_def Let_def)
  show "tools (snd (close env s)) = []" by (simp add: close_def Let_def)
qed

lemma close_consistent: "consistent (snd (close env s))"
  by (simp add: consistent_def close_fields)

lemma exec_consistent: "consistent s \<Longrightarrow> consistent (exec env c s)"
  by (cases c)
    (simp_all add: load_config_consistent initialize_servers_consistent add_server_consistent
      get_all_tools_consistent refresh_tools_consistent close_consistent get_server_tools_def)

lemma run_consistent: "consistent s \<Longrightarrow> consistent (run env cs s)"
  by (induction cs arbitrary: s) (simp_all add: exec_consistent)

lemma initialize_servers_fields:
  assumes "(if \<not> truthy (config s) then load_config env None s else (None, s)) = (None, s1)"
    and "py_get (config s1) ''servers'' (YDict []) = Inr (YDict es)"
  shows "servers (snd (initialize_servers env s)) = servers (snd (init_loop env es (emit InitStart s1)))"
    and "tools (snd (initialize_servers env s)) = tools (snd (init_loop env es (emit InitStart s1)))"
proof -
  obtain r s3 where l: "init_loop env es (emit InitStart s1) = (r, s3)"
    by (cases "init_loop env es (emit InitStart s1)")
  have "snd (initialize_servers env s) = s3 \<or> snd (initialize_servers env s) = emit InitDone s3"
    unfolding initialize_servers_effective [OF assms] l by (cases r) simp_all
  then show "servers (snd (initialize_servers env s))
      = servers (snd (init_loop env es (emit InitStart s1)))"
    and "tools (snd (initialize_servers env s)) = tools (snd (init_loop env es (emit InitStart s1)))"
    unfolding l by auto
qed

lemma init_loop_at:
  assumes "distinct (map fst es)" and "j < length es" and "es ! j = (n, sc)"
    and "fst (init_loop env (take j es) s) = None"
    and "command_line sc = Inr (cmd, joined)" and "make_server env n sc = Inr h"
  shows "map_of (servers (snd (init_loop env es s))) n
       = map_of (servers (snd (add_server env n h (emit (InitCommand cmd joined)
            (emit (InitServer n) (snd (init_loop env (take j es) s))))))) n
     \<and> map_of (tools (snd (init_loop env es s))) n
       = map_of (tools (snd (add_server env n h (emit (InitCommand cmd joined)
            (emit (InitServer n) (snd (init_loop env (take j es) s))))))) n
     \<and> map_of (tools (snd (init_loop env (take j es) s))) n = map_of (tools s) n"
  using assms(1-4)
proof (induction es arbitrary: s j)
  case Nil
  then show ?case by simp
next
  case (Cons x es)
  obtain m sc' where x: "x = (m, sc')" by (cases x)
  from Cons.prems(1) x have fresh: "m \<notin> fst ` set es" and d: "distinct (map fst es)" by auto
  show ?case
  proof (cases j)
    case 0
    with Cons.prems(3) x have nm: "m = n" and sc: "sc' = sc" by simp_all
    let ?r = "add_server env n h (emit (InitCommand cmd joined) (emit (InitServer n) s))"
    obtain s1 where e1: "init_entry env n sc s = (None, s1)"
      and sv: "servers s1 = servers (snd ?r)" and tl: "tools s1 = tools (snd ?r)"
      using assms(5,6) by (cases rule: init_entry_cases [of sc env n s]) simp_all
    have run: "init_loop env (x # es) s = init_loop env es s1"
      unfolding x nm sc using e1 by simp
    have "map_of (servers (snd (init_loop env es s1))) n = map_of (servers s1) n"
      and "map_of (tools (snd (init_loop env es s1))) n = map_of (tools s1) n"
      using init_loop_other [of n es env s1] fresh nm by simp_all
    then show ?thesis unfolding run 0 using sv tl by simp
  next
    case (Suc k)
    with Cons.prems(2,3) have k: "k < length es" and ek: "es ! k = (n, sc)" by simp_all
    from ek k have "n \<in> fst ` set es" by (metis fst_conv image_eqI nth_mem)
    with fresh have nm: "n \<noteq> m" by auto
    obtain r s1 where e1: "init_entry env m sc' s = (r, s1)" by (cases "init_entry env m sc' s")
    from Cons.prems(4) have r: "r = None"
      unfolding Suc x using e1 by (cases r) simp_all
    have pre: "init_loop env (take j (x # es)) s = init_loop env (take k es) s1"
      unfolding Suc x using e1 r by simp
    have run: "init_loop env (x # es) s = init_loop env es s1"
      unfolding x using e1 r by simp
    from Cons.prems(4) pre have p: "fst (init_loop env (take k es) s1) = None" by simp
    have t1: "map_of (tools s1) n = map_of (tools s) n"
      using init_entry_other [OF nm, of env sc' s] e1 by simp
    show ?thesis
      unfolding run pre using Cons.IH [OF d k ek p] t1 by simp
  qed
qed

lemma add_server_servers_entry:
  "map_of (servers (snd (add_server env n h s))) n =
     (if fst (connect env h (world s)) = None
         \<and> \<not> isl (fst (list_tools env h (snd (connect env h (world s)))))
      then Some h else None)"
proof (cases rule: add_server_cases [of env h s])
  case (connect_fails e w1)
  then show ?thesis by (simp add: add_server_connect_fails)
next
  case (fetch_fails e w1 w2)
  then show ?thesis by (simp add: add_server_fetch_fails)
next
  case (ok ts w1 w2)
  then show ?thesis by (simp add: add_server_succeeds AList.update_conv')
qed

lemma add_server_tools_entry:
  "map_of (tools (snd (add_server env n h s))) n =
     (if fst (connect env h (world s)) = None
      then (case fst (list_tools env h (snd (connect env h (world s)))) of
              Inr ts \<Rightarrow> Some ts
            | Inl e \<Rightarrow> map_of (tools s) n)
      else map_of (tools s) n)"
proof (cases rule: add_server_cases [of env h s])
  case (connect_fails e w1)
  then show ?thesis by (simp add: add_server_connect_fails)
next
  case (fetch_fails e w1 w2)
  then show ?thesis by (simp add: add_server_fetch_fails)
next
  case (ok ts w1 w2)
  then show ?thesis by (simp add: add_server_succeeds AList.update_conv')
qed

lemma initialize_servers_at:
  assumes "(if \<not> truthy (config s) then load_config env None s else (None, s)) = (None, s1)"
    and "py_get (config s1) ''servers'' (YDict []) = Inr (YDict es)"
    and "distinct (map fst es)" and "j < length es" and "es ! j = (n, sc)"
    and "fst (init_loop env (take j es) (emit InitStart s1)) = None"
    and "command_line sc = Inr (cmd, joined)" and "make_server env n sc = Inr h"
  shows "map_of (servers (snd (initialize_servers env s))) n =
     (if fst (connect env h (world (snd (init_loop env (take j es) (emit InitStart s1))))) = None
         \<and> \<not> isl (fst (list_tools env h (snd (connect env h
                      (world (snd (init_loop env (take j es) (emit InitStart s1))))))))
      then Some h else None)"
    and "map_of (tools (snd (initialize_servers env s))) n =
     (if fst (connect env h (world (snd (init_loop env (take j es) (emit InitStart s1))))) = None
      then (case fst (list_tools env h (snd (connect env h
                      (world (snd (init_loop env (take j es) (emit InitStart s1))))))) of
              Inr ts \<Rightarrow> Some ts
            | Inl e \<Rightarrow> map_of (tools s) n)
      else map_of (tools s) n)"
proof -
  let ?s2 = "emit InitStart s1"
  let ?sj = "snd (init_loop env (take j es) ?s2)"
  let ?sa = "emit (InitCommand cmd joined) (emit (InitServer n) ?sj)"
  have w: "world ?sa = world ?sj" by simp
  have at: "map_of (servers (snd (init_loop env es ?s2))) n
       = map_of (servers (snd (add_server env n h ?sa))) n"
    "map_of (tools (snd (init_loop env es ?s2))) n
       = map_of (tools (snd (add_server env n h ?sa))) n"
    "map_of (tools ?sj) n = map_of (tools ?s2) n"
    using init_loop_at [OF assms(3,4,5,6,7,8)] by simp_all
  have t: "map_of (tools ?sa) n = map_of (tools s) n"
    using at(3) effective_frame(2) [OF assms(1)] by simp
  show "map_of (servers (snd (initialize_servers env s))) n =
     (if fst (connect env h (world ?sj)) = None
         \<and> \<not> isl (fst (list_tools env h (snd (connect env h (world ?sj)))))
      then Some h else None)"
    unfolding initialize_servers_fields(1) [OF assms(1,2)] at(1)
      add_server_servers_entry [of env n h ?sa] w ..
  show "map_of (tools (snd (initialize_servers env s))) n =
     (if fst (connect env h (world ?sj)) = None
      then (case fst (list_tools env h (snd (connect env h (world ?sj)))) of
              Inr ts \<Rightarrow> Some ts
            | Inl e \<Rightarrow> map_of (tools s) n)
      else map_of (tools s) n)"
    unfolding initialize_servers_fields(2) [OF assms(1,2)] at(2)
      add_server_tools_entry [of env n h ?sa] w t ..
qed




subsection \<open>Claims\<close>

text \<open>
  C1. The claim asks that a failure at any step of one entry, the construction of its
  handle from its parameters included, is caught and logged, that the entry is skipped
  and the remaining entries are processed, and that \<^verbatim>\<open>initialize_servers\<close> never raises
  because of one entry. The call below is made after \<^verbatim>\<open>load_config("broken.yaml")\<close>, a file
  whose first entry \<open>bad\<close> has no \<^verbatim>\<open>params\<close> and whose second entry is the well-formed
  \<open>files\<close>. It raises \<^verbatim>\<open>KeyError('params')\<close>: line 31 reads \<^verbatim>\<open>server_config['params']\<close>
  before the \<^verbatim>\<open>try\<close> of line 38, although line 35 reads the same key with
  \<^verbatim>\<open>.get('params', {})\<close>. The console shows that no failure was logged and that \<open>files\<close>
  was never started, and \<open>files\<close> is not registered, whereas the same entry is registered
  from \<^verbatim>\<open>healthy.yaml\<close>.
\<close>

theorem initialize_servers_malformed_entry_aborts:
  "config (loaded ''broken.yaml'')
     = YDict [(''servers'', YDict [(''bad'', YDict []), (''files'', files_entry)])]
   \<and> fst (initialize_servers demo_env (loaded ''broken.yaml'')) = Some (KeyError ''params'')
   \<and> out (snd (initialize_servers demo_env (loaded ''broken.yaml'')))
       = [LoadingConfig ''broken.yaml'', ConfigLoaded, InitStart, InitServer ''bad'']
   \<and> get_server ''files'' (snd (initialize_servers demo_env (loaded ''broken.yaml''))) = None
   \<and> fst (initialize_servers demo_env (loaded ''healthy.yaml'')) = None
   \<and> get_server ''files'' (snd (initialize_servers demo_env (loaded ''healthy.yaml'')))
       = Some (''files'', True)"
  by (simp add: run_simps demo_simps demo_files)

text \<open>
  C2 as written does not hold. After \<^verbatim>\<open>add_server("x", files)\<close> the name \<open>x\<close> has a handle and
  cached tools. A second \<^verbatim>\<open>add_server("x", ghost)\<close>, whose \<^verbatim>\<open>connect\<close> fails, removes the
  handle in its \<^verbatim>\<open>except\<close> branch, but no line of the module removes a single name from
  the tool cache: in the state reached, the server whose connect step failed is still a
  key of the tool cache.
\<close>

theorem failed_connect_leaves_cache_entry:
  "fst (connect demo_env (''ghost'', True)
      (world (run demo_env [AddServer ''x'' (''files'', True)] fresh))) = Some (Error ''spawn'')
   \<and> fst (add_server demo_env ''x'' (''ghost'', True)
        (run demo_env [AddServer ''x'' (''files'', True)] fresh)) = Some (Error ''spawn'')
   \<and> servers (run demo_env
        [AddServer ''x'' (''files'', True), AddServer ''x'' (''ghost'', True)] fresh) = []
   \<and> tools (run demo_env
        [AddServer ''x'' (''files'', True), AddServer ''x'' (''ghost'', True)] fresh)
       = [(''x'', [''read'', ''write'', ''list''])]
   \<and> fst (get_server_tools ''x'' (run demo_env
        [AddServer ''x'' (''files'', True), AddServer ''x'' (''ghost'', True)] fresh))
       = Some [''read'', ''write'', ''list'']"
  by (auto simp add: run_simps demo_simps)

text \<open>
  C2, amended. In every state reached from a new manager by any sequence of calls of the
  public methods, every name in the handles mapping has an entry in the tool cache. When
  the \<^verbatim>\<open>connect\<close> of \<^verbatim>\<open>add_server(name, server)\<close> fails, in any state, the call raises, \<open>name\<close> is
  not in the handles mapping afterwards, and the tool cache is what it was before the
  call, so \<open>name\<close> is in neither mapping unless it had cached tools before. The same holds
  for an entry of \<^verbatim>\<open>initialize_servers\<close>: when the loop comes to the usable entry \<open>n\<close> (no
  entry before it raised) and the \<^verbatim>\<open>connect\<close> of its handle fails in the world reached by
  then, \<open>n\<close> has no handle after the call and its cache entry is the one from before the
  call.
\<close>

theorem handles_have_cached_tools:
  "fst ` set (servers (run env cs (init w))) \<subseteq> fst ` set (tools (run env cs (init w)))
   \<and> (fst (connect env server (world s)) = Some e \<longrightarrow>
        fst (add_server env name server s) = Some e
        \<and> name \<notin> fst ` set (servers (snd (add_server env name server s)))
        \<and> tools (snd (add_server env name server s)) = tools s)
   \<and> ((if \<not> truthy (config s) then load_config env None s else (None, s)) = (None, s1) \<longrightarrow>
      py_get (config s1) ''servers'' (YDict []) = Inr (YDict es) \<longrightarrow>
      distinct (map fst es) \<longrightarrow> j < length es \<longrightarrow> es ! j = (n, sc) \<longrightarrow>
      fst (init_loop env (take j es) (emit InitStart s1)) = None \<longrightarrow>
      command_line sc = Inr (cmd, joined) \<longrightarrow> make_server env n sc = Inr h \<longrightarrow>
      fst (connect env h (world (snd (init_loop env (take j es) (emit InitStart s1))))) = Some e' \<longrightarrow>
        get_server n (snd (initialize_servers env s)) = None
        \<and> fst (get_server_tools n (snd (initialize_servers env s))) = fst (get_server_tools n s))"
proof -
  have "consistent (run env cs (init w))"
    by (rule run_consistent) (rule consistent_init)
  then have inv: "fst ` set (servers (run env cs (init w))) \<subseteq> fst ` set (tools (run env cs (init w)))"
    by (simp add: consistent_def)
  have add: "fst (add_server env name server s) = Some e
        \<and> name \<notin> fst ` set (servers (snd (add_server env name server s)))
        \<and> tools (snd (add_server env name server s)) = tools s"
    if c: "fst (connect env server (world s)) = Some e"
  proof -
    obtain w1 where "connect env server (world s) = (Some e, w1)"
      using c by (cases "connect env server (world s)") auto
    then show ?thesis
      by (simp add: add_server_connect_fails AList.delete_notin_dom)
  qed
  have ini: "get_server n (snd (initialize_servers env s)) = None
        \<and> fst (get_server_tools n (snd (initialize_servers env s))) = fst (get_server_tools n s)"
    if "(if \<not> truthy (config s) then load_config env None s else (None, s)) = (None, s1)"
      and "py_get (config s1) ''servers'' (YDict []) = Inr (YDict es)"
      and "distinct (map fst es)" and "j < length es" and "es ! j = (n, sc)"
      and "fst (init_loop env (take j es) (emit InitStart s1)) = None"
      and "command_line sc = Inr (cmd, joined)" and "make_server env n sc = Inr h"
      and "fst (connect env h (world (snd (init_loop env (take j es) (emit InitStart s1))))) = Some e'"
    using initialize_servers_at [OF that(1-8)] that(9)
    by (simp add: get_server_def get_server_tools_def)
  from inv add ini show ?thesis by blast
qed

theorem handles_have_cached_tools_witness:
  "servers (run demo_env [InitializeServers, RefreshTools] fresh)
     = [(''files'', (''files'', True)), (''clock'', (''clock'', True))]
   \<and> fst ` set (servers (run demo_env [InitializeServers, RefreshTools] fresh))
       \<subseteq> fst ` set (tools (run demo_env [InitializeServers, RefreshTools] fresh))
   \<and> fst (connect demo_env (''ghost'', True) (world fresh)) = Some (Error ''spawn'')
   \<and> fst (add_server demo_env ''y'' (''ghost'', True) fresh) = Some (Error ''spawn'')
   \<and> ''y'' \<notin> fst ` set (servers (snd (add_server demo_env ''y'' (''ghost'', True) fresh)))
   \<and> tools (snd (add_server demo_env ''y'' (''ghost'', True) fresh)) = []
   \<and> get_server ''ghost'' (snd (initialize_servers demo_env fresh)) = None
   \<and> fst (get_server_tools ''ghost'' (snd (initialize_servers demo_env fresh))) = None"
proof -
  let ?ghost = "YDict [(''params'', YDict [(''command'', YStr ''ghost''), (''args'', YList [])]),
                         (''cache_tools_list'', YBool False)]"
  let ?es = "[(''files'', YDict [(''params'', YDict [(''command'', YStr ''files''),
                                   (''args'', YList [YStr ''--root'', YStr ''/srv''])])]),
      (''ghost'', ?ghost),
      (''clock'', YDict [(''params'', YDict [(''command'', YStr ''clock''), (''args'', YList [])])])]"
  let ?s1 = "snd (load_config demo_env None fresh)"
  note inst = handles_have_cached_tools [of demo_env "[InitializeServers, RefreshTools]" "[]"
      "(''ghost'', True)" fresh "Error ''spawn''" "''y''" "?s1" "?es" 1 "''ghost''" "?ghost"
      "YStr ''ghost''" "[]" "(''ghost'', False)" "Error ''spawn''"]
  have sv: "servers (run demo_env [InitializeServers, RefreshTools] fresh)
     = [(''files'', (''files'', True)), (''clock'', (''clock'', True))]"
    by (simp add: refresh_tools_def refresh_server_def run_simps demo_simps demo_files)
  have a: "fst (connect demo_env (''ghost'', True) (world fresh)) = Some (Error ''spawn'')"
    by (simp add: demo_simps)
  have b: "(if \<not> truthy (config fresh) then load_config demo_env None fresh else (None, fresh))
      = (None, ?s1)"
    by (simp add: demo_simps demo_files)
  have c: "py_get (config ?s1) ''servers'' (YDict []) = Inr (YDict ?es)"
    by (simp add: demo_simps demo_files)
  have d: "distinct (map fst ?es)" "1 < length ?es" "?es ! 1 = (''ghost'', ?ghost)" by simp_all
  have e: "fst (init_loop demo_env (take 1 ?es) (emit InitStart ?s1)) = None"
    by (simp add: run_simps demo_simps demo_files)
  have f: "command_line ?ghost = Inr (YStr ''ghost'', [])"
    "make_server demo_env ''ghost'' ?ghost = Inr (''ghost'', False)"
    by (simp_all add: command_line_def make_server_def and_then_def demo_env_def)
  have g: "fst (connect demo_env (''ghost'', False)
      (world (snd (init_loop demo_env (take 1 ?es) (emit InitStart ?s1))))) = Some (Error ''spawn'')"
    by (simp add: demo_simps)
  have t0: "fst (get_server_tools ''ghost'' fresh) = None"
    by (simp add: get_server_tools_def demo_simps)
  have t1: "tools fresh = []" by (simp add: demo_simps)
  from inst have "fst ` set (servers (run demo_env [InitializeServers, RefreshTools] fresh))
       \<subseteq> fst ` set (tools (run demo_env [InitializeServers, RefreshTools] fresh))"
    unfolding fresh_def by blast
  moreover from inst a have "fst (add_server demo_env ''y'' (''ghost'', True) fresh) = Some (Error ''spawn'')
     \<and> ''y'' \<notin> fst ` set (servers (snd (add_server demo_env ''y'' (''ghost'', True) fresh)))
     \<and> tools (snd (add_server demo_env ''y'' (''ghost'', True) fresh)) = tools fresh"
    by blast
  moreover from inst b c d e f g
  have "get_server ''ghost'' (snd (initialize_servers demo_env fresh)) = None
     \<and> fst (get_server_tools ''ghost'' (snd (initialize_servers demo_env fresh)))
         = fst (get_server_tools ''ghost'' fresh)"
    by blast
  ultimately show ?thesis using sv a t0 t1 by simp
qed

text \<open>
  C3. When \<^verbatim>\<open>add_server(name, server)\<close> fails, that is, when \<^verbatim>\<open>connect\<close> raises \<open>e\<close>, or
  \<^verbatim>\<open>connect\<close> returns and the first \<^verbatim>\<open>list_tools\<close> raises \<open>e\<close>, the call raises that same
  \<open>e\<close> to its caller (the bare \<^verbatim>\<open>raise\<close> of line 62; the specification names this kind of
  failure \<^verbatim>\<open>ServerConnectionError\<close>), and afterwards \<open>name\<close> is not a key of the handles
  mapping, so \<^verbatim>\<open>get_server(name)\<close> returns \<^verbatim>\<open>None\<close>.
\<close>

theorem add_server_failure_propagates:
  assumes "fst (connect env server (world s)) = Some e
     \<or> (fst (connect env server (world s)) = None
        \<and> fst (list_tools env server (snd (connect env server (world s)))) = Inl e)"
  shows "fst (add_server env name server s) = Some e
     \<and> name \<notin> fst ` set (servers (snd (add_server env name server s)))
     \<and> get_server name (snd (add_server env name server s)) = None"
proof -
  note absent = AList.delete_notin_dom
  show ?thesis
  proof (cases rule: add_server_cases [of env server s])
    case (connect_fails e' w1)
    with assms have "e' = e" by simp
    with connect_fails show ?thesis
      by (simp add: add_server_connect_fails get_server_def absent)
  next
    case (fetch_fails e' w1 w2)
    with assms have "e' = e" by simp
    with fetch_fails show ?thesis
      by (simp add: add_server_fetch_fails get_server_def absent)
  next
    case (ok ts w1 w2)
    with assms show ?thesis by simp
  qed
qed

theorem add_server_failure_propagates_witness:
  "fst (connect demo_env (''ghost'', True) (world fresh)) = Some (Error ''spawn'')
   \<and> fst (add_server demo_env ''x'' (''ghost'', True) fresh) = Some (Error ''spawn'')
   \<and> ''x'' \<notin> fst ` set (servers (snd (add_server demo_env ''x'' (''ghost'', True) fresh)))
   \<and> get_server ''x'' (snd (add_server demo_env ''x'' (''ghost'', True) fresh)) = None"
proof -
  have h: "fst (connect demo_env (''ghost'', True) (world fresh)) = Some (Error ''spawn'')"
    by (simp add: demo_simps)
  show ?thesis
    using h add_server_failure_propagates [of demo_env "(''ghost'', True)" fresh "Error ''spawn''" "''x''"]
    by blast
qed

text \<open>
  C4. \<^verbatim>\<open>close()\<close> returns normally whatever the clean-up, the process attribute, the
  termination, the poll and the kill of each server do, and after it both the handles
  mapping and the tool cache are empty.
\<close>

theorem close_empties_registry:
  "fst (close env s) = None \<and> servers (snd (close env s)) = [] \<and> tools (snd (close env s)) = []"
proof -
  have "servers (close_loop env (servers (emit CloseStart s)) (emit CloseStart s)) = []"
    by (rule close_loop_all)
  then show ?thesis by (simp add: close_def Let_def)
qed

text \<open>
  C5 as written does not hold. After \<^verbatim>\<open>load_config("empty.yaml")\<close> the stored configuration
  is the empty mapping: it has \<open>N = 0\<close> server entries, and no step of any of them fails.
  \<^verbatim>\<open>initialize_servers\<close> on this fresh registry takes the empty mapping for a
  configuration that was never loaded (line 25), loads the default file, and registers the
  two servers of that file that connect.
\<close>

theorem initialize_servers_reloads_empty_config:
  "config (loaded ''empty.yaml'') = YDict []
   \<and> py_get (config (loaded ''empty.yaml'')) ''servers'' (YDict []) = Inr (YDict [])
   \<and> servers (loaded ''empty.yaml'') = [] \<and> tools (loaded ''empty.yaml'') = []
   \<and> fst (initialize_servers demo_env (loaded ''empty.yaml'')) = None
   \<and> map fst (servers (snd (initialize_servers demo_env (loaded ''empty.yaml''))))
       = [''files'', ''clock'']
   \<and> map fst (tools (snd (initialize_servers demo_env (loaded ''empty.yaml''))))
       = [''files'', ''clock'']"
  by (simp add: run_simps demo_simps demo_files)

text \<open>
  C5, amended. Let \<open>s1\<close> be the manager with the configuration in effect: \<open>s\<close> itself when
  its stored configuration is truthy, and otherwise \<open>s\<close> after \<^verbatim>\<open>load_config()\<close> has read
  the default file. Let this configuration have \<open>N = length es\<close> usable entries of distinct
  names under \<^verbatim>\<open>servers\<close>, and let \<^verbatim>\<open>connect\<close> and \<^verbatim>\<open>list_tools\<close> succeed for each of them
  in the world in which the loop comes to it, that is, the world left by the entries
  before it. On a fresh registry (no handle, no cached tools) \<^verbatim>\<open>initialize_servers\<close>
  returns normally and leaves exactly \<open>N\<close> handles and \<open>N\<close> cached tool lists, under the
  names of the configuration and in its order; for every configured name \<^verbatim>\<open>get_server\<close>
  and \<^verbatim>\<open>get_server_tools\<close> return a value other than \<^verbatim>\<open>None\<close>.
\<close>

theorem initialize_servers_registers_all:
  assumes "(if \<not> truthy (config s) then load_config env None s else (None, s)) = (None, s1)"
    and "py_get (config s1) ''servers'' (YDict []) = Inr (YDict es)"
    and "distinct (map fst es)"
    and "\<forall>(n, sc) \<in> set es. usable_entry env n sc"
    and "\<forall>i < length es. \<forall>h. make_server env (fst (es ! i)) (snd (es ! i)) = Inr h \<longrightarrow>
           fst (connect env h (world (snd (init_loop env (take i es) (emit InitStart s1))))) = None
           \<and> \<not> isl (fst (list_tools env h
                  (snd (connect env h
                     (world (snd (init_loop env (take i es) (emit InitStart s1))))))))"
    and "servers s = []" and "tools s = []"
  shows "fst (initialize_servers env s) = None
     \<and> length (servers (snd (initialize_servers env s))) = length es
     \<and> length (tools (snd (initialize_servers env s))) = length es
     \<and> map fst (servers (snd (initialize_servers env s))) = map fst es
     \<and> map fst (tools (snd (initialize_servers env s))) = map fst es
     \<and> (\<forall>n \<in> fst ` set es. get_server n (snd (initialize_servers env s)) \<noteq> None
           \<and> fst (get_server_tools n (snd (initialize_servers env s))) \<noteq> None)"
proof -
  have e: "servers s1 = []" "tools s1 = []"
    using effective_frame(1,2) [OF assms(1)] assms(6,7) by simp_all
  have d1: "distinct (map fst (servers (emit InitStart s1)) @ map fst es)"
    and d2: "distinct (map fst (tools (emit InitStart s1)) @ map fst es)"
    using assms(3) e by simp_all
  obtain s' where l: "init_loop env es (emit InitStart s1) = (None, s')"
    and sv: "map fst (servers s') = map fst es" and tl: "map fst (tools s') = map fst es"
    using init_loop_all_ok [OF assms(4) assms(5) d1 d2] e by auto
  have r: "initialize_servers env s = (None, emit InitDone s')"
    using initialize_servers_effective [OF assms(1) assms(2)] l by simp
  have len: "length (servers s') = length es" "length (tools s') = length es"
    using sv tl by (metis length_map)+
  have look: "get_server n (emit InitDone s') \<noteq> None
      \<and> fst (get_server_tools n (emit InitDone s')) \<noteq> None" if "n \<in> fst ` set es" for n
  proof -
    from that sv tl have "n \<in> fst ` set (servers s')" and "n \<in> fst ` set (tools s')"
      by (metis set_map)+
    then show ?thesis
      by (simp add: get_server_def get_server_tools_def map_of_eq_None_iff)
  qed
  show ?thesis unfolding r fst_conv snd_conv using sv tl len look by simp
qed

theorem initialize_servers_registers_all_witness:
  "fst (initialize_servers demo_env (loaded ''healthy.yaml'')) = None
   \<and> length (servers (snd (initialize_servers demo_env (loaded ''healthy.yaml'')))) = 2
   \<and> length (tools (snd (initialize_servers demo_env (loaded ''healthy.yaml'')))) = 2
   \<and> map fst (tools (snd (initialize_servers demo_env (loaded ''healthy.yaml''))))
       = [''files'', ''clock'']
   \<and> fst (get_server_tools ''clock'' (snd (initialize_servers demo_env (loaded ''healthy.yaml''))))
       = Some [''now'']
   \<and> map fst (servers (snd (initialize_servers demo_env (loaded ''flaky.yaml'')))) = [''flaky'']
   \<and> tools (snd (initialize_servers demo_env (loaded ''flaky.yaml''))) = [(''flaky'', [''once''])]"
proof -
  let ?s = "loaded ''healthy.yaml''"
  let ?es = "[(''files'', files_entry), (''clock'', clock_entry)]"
  have a: "(if \<not> truthy (config ?s) then load_config demo_env None ?s else (None, ?s)) = (None, ?s)"
    by (simp add: demo_simps demo_files)
  have b: "py_get (config ?s) ''servers'' (YDict []) = Inr (YDict ?es)"
    by (simp add: demo_simps demo_files)
  have c: "distinct (map fst ?es)" by simp
  have d: "\<forall>(n, sc) \<in> set ?es. usable_entry demo_env n sc"
    by (simp add: usable_entry_def command_line_def make_server_def and_then_def demo_env_def
        files_entry_def clock_entry_def)
  have e: "\<forall>i < length ?es. \<forall>h. make_server demo_env (fst (?es ! i)) (snd (?es ! i)) = Inr h \<longrightarrow>
           fst (connect demo_env h
                  (world (snd (init_loop demo_env (take i ?es) (emit InitStart ?s))))) = None
           \<and> \<not> isl (fst (list_tools demo_env h
                  (snd (connect demo_env h
                     (world (snd (init_loop demo_env (take i ?es) (emit InitStart ?s))))))))"
  proof (intro allI impI)
    fix i h
    assume "i < length ?es"
    then consider "i = 0" | "i = 1" by fastforce
    then show "make_server demo_env (fst (?es ! i)) (snd (?es ! i)) = Inr h \<Longrightarrow>
           fst (connect demo_env h
                  (world (snd (init_loop demo_env (take i ?es) (emit InitStart ?s))))) = None
           \<and> \<not> isl (fst (list_tools demo_env h
                  (snd (connect demo_env h
                     (world (snd (init_loop demo_env (take i ?es) (emit InitStart ?s))))))))"
      by cases (auto simp add: run_simps demo_simps demo_files)
  qed
  have f: "servers ?s = []" "tools ?s = []" by (simp_all add: demo_simps demo_files)
  have healthy: "fst (initialize_servers demo_env ?s) = None
     \<and> length (servers (snd (initialize_servers demo_env ?s))) = 2
     \<and> length (tools (snd (initialize_servers demo_env ?s))) = 2
     \<and> map fst (tools (snd (initialize_servers demo_env ?s))) = [''files'', ''clock'']"
    using initialize_servers_registers_all [OF a b c d e f] by simp
  have clock: "fst (get_server_tools ''clock'' (snd (initialize_servers demo_env ?s))) = Some [''now'']"
    by (simp add: run_simps demo_simps demo_files)
  let ?t = "loaded ''flaky.yaml''"
  let ?fs = "[(''flaky'', YDict [(''params'', YDict [(''command'', YStr ''flaky''),
                                                     (''args'', YList [])])])]"
  have a': "(if \<not> truthy (config ?t) then load_config demo_env None ?t else (None, ?t)) = (None, ?t)"
    by (simp add: demo_simps demo_files)
  have b': "py_get (config ?t) ''servers'' (YDict []) = Inr (YDict ?fs)"
    by (simp add: demo_simps demo_files)
  have c': "distinct (map fst ?fs)" by simp
  have d': "\<forall>(n, sc) \<in> set ?fs. usable_entry demo_env n sc"
    by (simp add: usable_entry_def command_line_def make_server_def and_then_def demo_env_def)
  have e': "\<forall>i < length ?fs. \<forall>h. make_server demo_env (fst (?fs ! i)) (snd (?fs ! i)) = Inr h \<longrightarrow>
           fst (connect demo_env h
                  (world (snd (init_loop demo_env (take i ?fs) (emit InitStart ?t))))) = None
           \<and> \<not> isl (fst (list_tools demo_env h
                  (snd (connect demo_env h
                     (world (snd (init_loop demo_env (take i ?fs) (emit InitStart ?t))))))))"
    by (auto simp add: run_simps demo_simps demo_files)
  have f': "servers ?t = []" "tools ?t = []" by (simp_all add: demo_simps demo_files)
  have flaky: "map fst (servers (snd (initialize_servers demo_env ?t))) = [''flaky'']"
    using initialize_servers_registers_all [OF a' b' c' d' e' f'] by simp
  have once: "tools (snd (initialize_servers demo_env ?t)) = [(''flaky'', [''once''])]"
    by (simp add: run_simps demo_simps demo_files)
  from healthy clock flaky once show ?thesis by simp
qed

text \<open>
  C6. Let the handles mapping hold the server \<open>server\<close> under \<open>name\<close> at position \<open>i\<close> (the
  keys of a dictionary are distinct), and let its \<^verbatim>\<open>list_tools\<close> raise \<open>e\<close> when
  \<^verbatim>\<open>refresh_tools\<close> comes to it, that is, in the world left by the fetches of the servers
  before it. Then \<^verbatim>\<open>refresh_tools\<close> returns normally and the error is logged; the cached
  tools of \<open>name\<close> are what they were before the call; the handles mapping is unchanged,
  so \<open>name\<close> is still registered with \<open>server\<close>; and every server of the mapping has its
  turn: when its fetch returns \<open>ts\<close> the cache holds \<open>ts\<close> for it afterwards, and when its
  fetch raises, the error is logged and its cache entry is as before.
\<close>

theorem refresh_tools_keeps_stale_cache:
  assumes "distinct (map fst (servers s))"
    and "i < length (servers s)"
    and "servers s ! i = (name, server)"
    and "fst (list_tools env server
            (world (refresh_loop env (take i (servers s)) (emit RefreshStart s)))) = Inl e"
  shows "fst (refresh_tools env s) = None
     \<and> RefreshError name e \<in> set (drop (length (out s)) (out (snd (refresh_tools env s))))
     \<and> fst (get_server_tools name (snd (refresh_tools env s))) = fst (get_server_tools name s)
     \<and> servers (snd (refresh_tools env s)) = servers s
     \<and> get_server name (snd (refresh_tools env s)) = Some server
     \<and> (\<forall>j < length (servers s).
          case fst (list_tools env (snd (servers s ! j))
                      (world (refresh_loop env (take j (servers s)) (emit RefreshStart s)))) of
            Inr ts \<Rightarrow>
              fst (get_server_tools (fst (servers s ! j)) (snd (refresh_tools env s))) = Some ts
              \<and> Refreshed (fst (servers s ! j)) (length ts)
                  \<in> set (drop (length (out s)) (out (snd (refresh_tools env s))))
          | Inl e' \<Rightarrow>
              fst (get_server_tools (fst (servers s ! j)) (snd (refresh_tools env s)))
                = fst (get_server_tools (fst (servers s ! j)) s)
              \<and> RefreshError (fst (servers s ! j)) e'
                  \<in> set (drop (length (out s)) (out (snd (refresh_tools env s)))))"
proof -
  have r: "fst (refresh_tools env s) = None" by (simp add: refresh_tools_eq)
  have sv: "servers (snd (refresh_tools env s)) = servers s" by (simp add: refresh_tools_eq)
  from assms(2,3) have "(name, server) \<in> set (servers s)" by (metis nth_mem)
  with assms(1) have "map_of (servers s) name = Some server" by (rule map_of_is_SomeI)
  then have g: "get_server name (snd (refresh_tools env s)) = Some server"
    using sv by (simp add: get_server_def)
  have own: "RefreshError name e \<in> set (drop (length (out s)) (out (snd (refresh_tools env s))))
     \<and> fst (get_server_tools name (snd (refresh_tools env s))) = fst (get_server_tools name s)"
    using refresh_tools_at [OF assms(1,2,3), of env] assms(4) by (simp add: get_server_tools_def)
  have all: "case fst (list_tools env (snd (servers s ! j))
                      (world (refresh_loop env (take j (servers s)) (emit RefreshStart s)))) of
            Inr ts \<Rightarrow>
              fst (get_server_tools (fst (servers s ! j)) (snd (refresh_tools env s))) = Some ts
              \<and> Refreshed (fst (servers s ! j)) (length ts)
                  \<in> set (drop (length (out s)) (out (snd (refresh_tools env s))))
          | Inl e' \<Rightarrow>
              fst (get_server_tools (fst (servers s ! j)) (snd (refresh_tools env s)))
                = fst (get_server_tools (fst (servers s ! j)) s)
              \<and> RefreshError (fst (servers s ! j)) e'
                  \<in> set (drop (length (out s)) (out (snd (refresh_tools env s))))"
    if j: "j < length (servers s)" for j
  proof -
    have "servers s ! j = (fst (servers s ! j), snd (servers s ! j))" by simp
    from refresh_tools_at [OF assms(1) j this, of env]
    show ?thesis unfolding get_server_tools_def fst_conv .
  qed
  from r own sv g all show ?thesis by blast
qed

theorem refresh_tools_keeps_stale_cache_witness:
  "servers two_servers = [(''a'', (''flaky'', True)), (''b'', (''files'', True))]
   \<and> fst (get_server_tools ''a'' two_servers) = Some [''once'']
   \<and> fst (list_tools demo_env (''flaky'', True)
           (world (refresh_loop demo_env (take 0 (servers two_servers))
                     (emit RefreshStart two_servers)))) = Inl (Error ''list_tools'')
   \<and> fst (refresh_tools demo_env two_servers) = None
   \<and> RefreshError ''a'' (Error ''list_tools'')
        \<in> set (out (snd (refresh_tools demo_env two_servers)))
   \<and> fst (get_server_tools ''a'' (snd (refresh_tools demo_env two_servers))) = Some [''once'']
   \<and> get_server ''a'' (snd (refresh_tools demo_env two_servers)) = Some (''flaky'', True)
   \<and> Refreshed ''b'' 3 \<in> set (out (snd (refresh_tools demo_env two_servers)))
   \<and> fst (get_server_tools ''b'' (snd (refresh_tools demo_env two_servers)))
       = Some [''read'', ''write'', ''list'']"
proof -
  have sv: "servers two_servers = [(''a'', (''flaky'', True)), (''b'', (''files'', True))]"
    by (simp add: two_servers_def run_simps demo_simps)
  have tl: "fst (get_server_tools ''a'' two_servers) = Some [''once'']"
    by (simp add: two_servers_def run_simps demo_simps)
  have a: "distinct (map fst (servers two_servers))" unfolding sv by simp
  have b: "0 < length (servers two_servers)" unfolding sv by simp
  have c: "servers two_servers ! 0 = (''a'', (''flaky'', True))" unfolding sv by simp
  have d: "fst (list_tools demo_env (''flaky'', True)
           (world (refresh_loop demo_env (take 0 (servers two_servers))
                     (emit RefreshStart two_servers)))) = Inl (Error ''list_tools'')"
    by (simp add: two_servers_def run_simps demo_simps)
  have "fst (refresh_tools demo_env two_servers) = None
     \<and> fst (get_server_tools ''a'' (snd (refresh_tools demo_env two_servers)))
         = fst (get_server_tools ''a'' two_servers)
     \<and> get_server ''a'' (snd (refresh_tools demo_env two_servers)) = Some (''flaky'', True)"
    using refresh_tools_keeps_stale_cache [OF a b c d] by blast
  moreover have "RefreshError ''a'' (Error ''list_tools'')
        \<in> set (out (snd (refresh_tools demo_env two_servers)))
     \<and> Refreshed ''b'' 3 \<in> set (out (snd (refresh_tools demo_env two_servers)))
     \<and> fst (get_server_tools ''b'' (snd (refresh_tools demo_env two_servers)))
         = Some [''read'', ''write'', ''list'']"
    by (simp add: two_servers_def refresh_tools_def refresh_server_def run_simps demo_simps)
  ultimately show ?thesis using sv tl d by simp
qed






text \<open>
  C9. Let \<open>name\<close> be registered with the handle \<open>old\<close> and the cached tools \<open>ts\<close>, and let
  \<^verbatim>\<open>add_server(name, new)\<close> fail. Afterwards \<^verbatim>\<open>get_server(name)\<close> returns \<^verbatim>\<open>None\<close>, while
  \<^verbatim>\<open>get_server_tools(name)\<close> still returns \<open>ts\<close>. The old handle is dropped without being
  cleaned up: \<^verbatim>\<open>add_server\<close> does not depend on the clean-up, terminate and kill operations
  of the environment at all.
\<close>

theorem failed_readd_keeps_stale_tools:
  assumes "map_of (servers s) name = Some old"
    and "map_of (tools s) name = Some ts"
    and "fst (add_server env name new s) = Some e"
  shows "get_server name (snd (add_server env name new s)) = None
     \<and> fst (get_server_tools name (snd (add_server env name new s))) = Some ts
     \<and> add_server (env\<lparr>cleanup := c, terminate := t, kill := k\<rparr>) name new s
         = add_server env name new s"
proof -
  from add_server_raises [OF assms(3)]
  have "servers (snd (add_server env name new s)) = AList.delete name (servers s)"
    and "tools (snd (add_server env name new s)) = tools s"
    by simp_all
  moreover have "add_server (env\<lparr>cleanup := c, terminate := t, kill := k\<rparr>) name new s
         = add_server env name new s"
    by (simp add: add_server_def Let_def split: prod.splits option.splits sum.splits)
  ultimately show ?thesis
    using assms(2) by (simp add: get_server_def get_server_tools_def)
qed

theorem failed_readd_keeps_stale_tools_witness:
  "map_of (servers registered) ''x'' = Some (''files'', True)
   \<and> map_of (tools registered) ''x'' = Some [''read'', ''write'', ''list'']
   \<and> fst (add_server demo_env ''x'' (''ghost'', True) registered) = Some (Error ''spawn'')
   \<and> get_server ''x'' (snd (add_server demo_env ''x'' (''ghost'', True) registered)) = None
   \<and> fst (get_server_tools ''x'' (snd (add_server demo_env ''x'' (''ghost'', True) registered)))
       = Some [''read'', ''write'', ''list'']"
proof -
  have a: "map_of (servers registered) ''x'' = Some (''files'', True)"
    by (simp add: registered_def run_simps demo_simps)
  have b: "map_of (tools registered) ''x'' = Some [''read'', ''write'', ''list'']"
    by (simp add: registered_def run_simps demo_simps)
  have c: "fst (add_server demo_env ''x'' (''ghost'', True) registered) = Some (Error ''spawn'')"
    by (simp add: registered_def run_simps demo_simps)
  show ?thesis
    using a b c failed_readd_keeps_stale_tools [OF a b c] by simp
qed

text \<open>
  C10. Let the stored configuration be falsy (\<^verbatim>\<open>{}\<close>, or \<^verbatim>\<open>None\<close> as an explicitly loaded file
  without content gives it), and let the default file be readable with the content \<open>y\<close>.
  Then \<^verbatim>\<open>initialize_servers\<close> does what \<^verbatim>\<open>load_config()\<close> does first: it announces the default
  path, stores \<open>y\<close> in place of the configuration it found, and only then starts the
  initialisation, which iterates over \<^verbatim>\<open>y.get('servers', {}).items()\<close>. The stored
  configuration is \<open>y\<close> afterwards, and when \<open>y\<close> is truthy the whole call is the call made
  after \<^verbatim>\<open>load_config()\<close>.
\<close>

theorem falsy_config_reloads:
  assumes "\<not> truthy (config s)"
    and "safe_load env (default_path env) (world s) = Inr y"
  shows "load_config env None s
           = (None, emit ConfigLoaded ((emit (LoadingConfig (default_path env)) s)\<lparr>config := y\<rparr>))
     \<and> initialize_servers env s =
         (case and_then (py_get y ''servers'' (YDict [])) py_items of
            Inl e \<Rightarrow> (Some e, emit InitStart (snd (load_config env None s)))
          | Inr entries \<Rightarrow>
              (case init_loop env entries (emit InitStart (snd (load_config env None s))) of
                 (Some e, s3) \<Rightarrow> (Some e, s3)
               | (None, s3) \<Rightarrow> (None, emit InitDone s3)))
     \<and> config (snd (initialize_servers env s)) = y
     \<and> (\<exists>evs. out (snd (initialize_servers env s))
            = out s @ LoadingConfig (default_path env) # ConfigLoaded # InitStart # evs)
     \<and> (truthy y \<longrightarrow>
          initialize_servers env s = initialize_servers env (snd (load_config env None s)))"
proof -
  let ?s1 = "emit ConfigLoaded ((emit (LoadingConfig (default_path env)) s)\<lparr>config := y\<rparr>)"
  have l: "load_config env None s = (None, ?s1)"
    using assms(2) by (simp add: load_config_def Let_def)
  have o1: "out ?s1 = out s @ [LoadingConfig (default_path env), ConfigLoaded]"
    by (simp add: emit_def)
  let ?s2 = "emit InitStart ?s1"
  have i: "initialize_servers env s =
      (case and_then (py_get y ''servers'' (YDict [])) py_items of
         Inl e \<Rightarrow> (Some e, ?s2)
       | Inr entries \<Rightarrow>
           (case init_loop env entries ?s2 of
              (Some e, s3) \<Rightarrow> (Some e, s3)
            | (None, s3) \<Rightarrow> (None, emit InitDone s3)))"
    using assms(1) l by (simp add: initialize_servers_def Let_def)
  have t: "initialize_servers env ?s1 = initialize_servers env s" if "truthy y"
    unfolding i using that by (simp add: initialize_servers_def Let_def)
  have co: "config (snd (initialize_servers env s)) = y
     \<and> (\<exists>evs. out (snd (initialize_servers env s))
            = out s @ LoadingConfig (default_path env) # ConfigLoaded # InitStart # evs)"
  proof (cases "and_then (py_get y ''servers'' (YDict [])) py_items")
    case (Inl e)
    then show ?thesis unfolding i using o1 by simp
  next
    case (Inr entries)
    obtain r s3 where r: "init_loop env entries ?s2 = (r, s3)" by (cases "init_loop env entries ?s2")
    have "config s3 = y" using init_loop_config [of env entries ?s2] r by simp
    moreover obtain evs where "out s3 = out ?s2 @ evs"
      using init_loop_out [of env entries ?s2] r by auto
    ultimately show ?thesis unfolding i Inr using r o1 by (cases r) simp_all
  qed
  have i': "initialize_servers env s =
         (case and_then (py_get y ''servers'' (YDict [])) py_items of
            Inl e \<Rightarrow> (Some e, emit InitStart (snd (load_config env None s)))
          | Inr entries \<Rightarrow>
              (case init_loop env entries (emit InitStart (snd (load_config env None s))) of
                 (Some e, s3) \<Rightarrow> (Some e, s3)
               | (None, s3) \<Rightarrow> (None, emit InitDone s3)))"
    unfolding l snd_conv by (rule i)
  have t': "truthy y \<longrightarrow>
      initialize_servers env s = initialize_servers env (snd (load_config env None s))"
    unfolding l snd_conv using t by simp
  from l i' co t' show ?thesis by blast
qed

theorem falsy_config_reloads_witness:
  "fst (load_config demo_env (Some ''blank.yaml'') fresh) = None
   \<and> config (loaded ''blank.yaml'') = YNull
   \<and> \<not> truthy (config (loaded ''blank.yaml''))
   \<and> safe_load demo_env (default_path demo_env) (world (loaded ''blank.yaml'')) = Inr demo_config
   \<and> fst (initialize_servers demo_env (loaded ''blank.yaml'')) = None
   \<and> config (snd (initialize_servers demo_env (loaded ''blank.yaml''))) = demo_config
   \<and> get_server ''files'' (snd (initialize_servers demo_env (loaded ''blank.yaml'')))
       = Some (''files'', True)"
proof -
  have a: "\<not> truthy (config (loaded ''blank.yaml''))"
    by (simp add: demo_simps demo_files)
  have b: "safe_load demo_env (default_path demo_env) (world (loaded ''blank.yaml''))
      = Inr demo_config"
    by (simp add: default_path_def demo_env_def)
  have "config (snd (initialize_servers demo_env (loaded ''blank.yaml''))) = demo_config"
    using falsy_config_reloads [OF a b] by blast
  moreover have "fst (load_config demo_env (Some ''blank.yaml'') fresh) = None
     \<and> config (loaded ''blank.yaml'') = YNull
     \<and> fst (initialize_servers demo_env (loaded ''blank.yaml'')) = None
     \<and> get_server ''files'' (snd (initialize_servers demo_env (loaded ''blank.yaml'')))
         = Some (''files'', True)"
    by (simp add: run_simps demo_simps demo_files)
  ultimately show ?thesis using a b by simp
qed

end
